theory Spec2Isabelle
  imports Main
begin

section \<open>csvtool: the record model, the csv dialect and the four operations\<close>

text \<open>
  The development follows \<^verbatim>\<open>csvtool/csvtool.py\<close>. Text is a \<^typ>\<open>string\<close>; a
  \<^typ>\<open>char\<close> stands for the Unicode code point of the same number, so the model covers
  Latin-1 text and \<^const>\<open>length\<close> is Python's \<^verbatim>\<open>len\<close>. Every exception and every
  \<^verbatim>\<open>sys.exit(1)\<close> of the program is a value of the type \<open>error\<close>; an operation
  returns \<open>error + output\<close>, where the output is the text written to standard output
  (the lines printed, for the readable mode).
\<close>

subsection \<open>Errors\<close>

datatype error =
    ColumnNotFound string      \<comment> \<open>message \<^verbatim>\<open>Column '...' not found\<close>, then \<^verbatim>\<open>sys.exit(1)\<close>\<close>
  | NameWithoutHeaders         \<comment> \<open>message \<^verbatim>\<open>Cannot use column name without headers\<close>, then \<^verbatim>\<open>sys.exit(1)\<close>\<close>
  | IndexError                 \<comment> \<open>uncaught: list index out of range\<close>
  | ValueError                 \<comment> \<open>uncaught: \<^verbatim>\<open>int()\<close> of a digit that is not decimal, or of too many digits\<close>
  | CsvError                   \<comment> \<open>uncaught \<^verbatim>\<open>csv.Error\<close> of the reader\<close>

subsection \<open>Python's strings and lists\<close>

abbreviation CR :: char where "CR \<equiv> CHR 0x0D"
abbreviation LF :: char where "LF \<equiv> CHR 0x0A"

text \<open>\<^verbatim>\<open>sep.join(xs)\<close>\<close>

fun py_join :: "string \<Rightarrow> string list \<Rightarrow> string" where
  "py_join sep [] = []"
| "py_join sep [x] = x"
| "py_join sep (x # y # ys) = x @ sep @ py_join sep (y # ys)"

text \<open>\<^verbatim>\<open>s.split(sep)\<close> for a separator of one character: never an empty list.\<close>

fun py_split :: "char \<Rightarrow> string \<Rightarrow> string list" where
  "py_split sep [] = [[]]"
| "py_split sep (c # cs) =
     (if c = sep then [] # py_split sep cs
      else (case py_split sep cs of [] \<Rightarrow> [[c]] | p # ps \<Rightarrow> (c # p) # ps))"

text \<open>
  \<^verbatim>\<open>str.isspace\<close> on one character: the code points below 256 that Python counts as
  whitespace. \<^verbatim>\<open>s.strip()\<close> removes them from both ends.
\<close>

definition py_isspace :: "char \<Rightarrow> bool" where
  "py_isspace c \<longleftrightarrow>
     (let n = of_char c :: nat
      in (9 \<le> n \<and> n \<le> 13) \<or> (28 \<le> n \<and> n \<le> 32) \<or> n = 133 \<or> n = 160)"

definition lstrip :: "string \<Rightarrow> string" where
  "lstrip s = dropWhile py_isspace s"

definition rstrip :: "string \<Rightarrow> string" where
  "rstrip s = rev (dropWhile py_isspace (rev s))"

definition strip :: "string \<Rightarrow> string" where
  "strip s = rstrip (lstrip s)"

text \<open>
  \<^verbatim>\<open>s.isdigit()\<close>: the string is not empty and every character is a digit. Below 256 the
  digits are \<open>0\<close> to \<open>9\<close> and the superscript digits one, two and three (code points 185,
  178 and 179), which \<^verbatim>\<open>int()\<close> does not accept.
\<close>

definition is_decimal_char :: "char \<Rightarrow> bool" where
  "is_decimal_char c \<longleftrightarrow> (let n = of_char c :: nat in 48 \<le> n \<and> n \<le> 57)"

definition is_digit_char :: "char \<Rightarrow> bool" where
  "is_digit_char c \<longleftrightarrow>
     is_decimal_char c \<or> (let n = of_char c :: nat in n = 178 \<or> n = 179 \<or> n = 185)"

definition isdigit :: "string \<Rightarrow> bool" where
  "isdigit s \<longleftrightarrow> s \<noteq> [] \<and> list_all is_digit_char s"

text \<open>
  \<^verbatim>\<open>int(s)\<close> for a string that passed \<^verbatim>\<open>isdigit\<close>: base 10, most significant digit
  first. A string of more than 4300 characters is refused
  (\<^verbatim>\<open>sys.int_info.default_max_str_digits\<close>, Python 3.11).
\<close>

definition digits_value :: "string \<Rightarrow> int" where
  "digits_value s = foldl (\<lambda>n c. 10 * n + (int (of_char c) - 48)) 0 s"

definition max_str_digits :: int where
  "max_str_digits = 4300"

definition py_int :: "string \<Rightarrow> error + int" where
  "py_int s =
     (if s \<noteq> [] \<and> list_all is_decimal_char s \<and> int (length s) \<le> max_str_digits
      then Inr (digits_value s) else Inl ValueError)"

text \<open>
  \<^verbatim>\<open>xs[i]\<close> and \<^verbatim>\<open>xs[i] = v\<close>: a negative index counts from the end, and an index outside
  \<open>-len .. len - 1\<close> raises \<^verbatim>\<open>IndexError\<close>.
\<close>

definition py_getitem :: "'a list \<Rightarrow> int \<Rightarrow> error + 'a" where
  "py_getitem xs i =
     (if 0 \<le> i \<and> i < int (length xs) then Inr (xs ! nat i)
      else if i < 0 \<and> - int (length xs) \<le> i then Inr (xs ! nat (int (length xs) + i))
      else Inl IndexError)"

definition py_setitem :: "'a list \<Rightarrow> int \<Rightarrow> 'a \<Rightarrow> error + 'a list" where
  "py_setitem xs i v =
     (if 0 \<le> i \<and> i < int (length xs) then Inr (xs[nat i := v])
      else if i < 0 \<and> - int (length xs) \<le> i then Inr (xs[nat (int (length xs) + i) := v])
      else Inl IndexError)"

text \<open>\<^verbatim>\<open>xs.index(v)\<close>: the first position of \<open>v\<close>, \<open>None\<close> for Python's \<^verbatim>\<open>ValueError\<close>.\<close>

fun py_index :: "'a list \<Rightarrow> 'a \<Rightarrow> nat option" where
  "py_index [] v = None"
| "py_index (x # xs) v = (if x = v then Some 0 else map_option Suc (py_index xs v))"

text \<open>\<^verbatim>\<open>s.ljust(w)\<close>: spaces on the right up to width \<open>w\<close>.\<close>

definition ljust :: "string \<Rightarrow> nat \<Rightarrow> string" where
  "ljust s w = s @ replicate (w - length s) CHR '' ''"

text \<open>
  The lines of a text as iterating over \<^verbatim>\<open>StringIO(content)\<close> gives them: a line ends
  after each line feed and keeps it; a last line with no line feed is a line too.
\<close>

fun splitlines :: "string \<Rightarrow> string list" where
  "splitlines [] = []"
| "splitlines (c # cs) =
     (if c = LF then [c] # splitlines cs
      else (case splitlines cs of [] \<Rightarrow> [[c]] | l # ls \<Rightarrow> (c # l) # ls))"

text \<open>
  Reading a named file in text mode (\<^verbatim>\<open>open(path, 'r')\<close>) translates the line ends
  \<open>CR LF\<close> and \<open>CR\<close> to \<open>LF\<close>.
\<close>

fun universal_newlines :: "string \<Rightarrow> string" where
  "universal_newlines [] = []"
| "universal_newlines [c] = [if c = CR then LF else c]"
| "universal_newlines (c # d # cs) =
     (if c = CR then
        (if d = LF then LF # universal_newlines cs else LF # universal_newlines (d # cs))
      else c # universal_newlines (d # cs))"

subsection \<open>The tool and its csv dialect\<close>

record CSVTool =
  delimiter :: char
  quote_char :: char

definition CSVTool_init :: CSVTool where
  "CSVTool_init = \<lparr>delimiter = CHR '','', quote_char = CHR 0x22\<rparr>"

subsection \<open>The csv writer\<close>

text \<open>
  \<^verbatim>\<open>csv.writer(output, delimiter, quotechar, quoting=csv.QUOTE_MINIMAL)\<close> of the Python
  standard library, with the defaults the tool leaves alone: quotes are doubled, there is
  no escape character and the line terminator is \<open>CR LF\<close>. A field is quoted when it holds
  the delimiter, the quote character or a character of the line terminator; a record of one
  empty field is written as two quote characters.
\<close>

definition needs_quote :: "CSVTool \<Rightarrow> string \<Rightarrow> bool" where
  "needs_quote self f \<longleftrightarrow>
     list_ex (\<lambda>c. c = delimiter self \<or> c = quote_char self \<or> c = CR \<or> c = LF) f"

definition double_quotes :: "CSVTool \<Rightarrow> string \<Rightarrow> string" where
  "double_quotes self f = concat (map (\<lambda>c. if c = quote_char self then [c, c] else [c]) f)"

definition join_append :: "CSVTool \<Rightarrow> string \<Rightarrow> string" where
  "join_append self f =
     (if needs_quote self f then quote_char self # double_quotes self f @ [quote_char self]
      else double_quotes self f)"

definition writerow :: "CSVTool \<Rightarrow> string list \<Rightarrow> string" where
  "writerow self row =
     (let rec = py_join [delimiter self] (map (join_append self) row)
      in (if row \<noteq> [] \<and> rec = [] then [quote_char self, quote_char self] else rec) @ [CR, LF])"

subsection \<open>The csv reader\<close>

text \<open>
  \<^verbatim>\<open>csv.reader(StringIO(content), delimiter, quotechar)\<close> of the Python standard library:
  a state machine fed the characters of each line and then an end-of-line mark
  (\<open>None\<close>). The dialect is not strict, doubles quotes, has no escape character and does
  not skip initial spaces. This is the reader of Python 3.11, for which the character
  of code point 0 is an ordinary character. A field holds at most
  \<^verbatim>\<open>csv.field_size_limit()\<close> characters, 131072 as the tool leaves it: adding one
  more raises \<^verbatim>\<open>csv.Error\<close>.
\<close>

datatype parser_state =
  START_RECORD | START_FIELD | IN_FIELD | IN_QUOTED_FIELD | QUOTE_IN_QUOTED_FIELD | EAT_CRNL

record reader =
  state :: parser_state
  saved_fields :: "string list"
  field :: string

definition parse_reset :: reader where
  "parse_reset = \<lparr>state = START_RECORD, saved_fields = [], field = []\<rparr>"

definition parse_save_field :: "reader \<Rightarrow> reader" where
  "parse_save_field r = r\<lparr>saved_fields := saved_fields r @ [field r], field := []\<rparr>"

definition field_limit :: int where
  "field_limit = 131072"

definition parse_add_char :: "reader \<Rightarrow> char \<Rightarrow> error + reader" where
  "parse_add_char r c =
     (if int (length (field r)) < field_limit then Inr (r\<lparr>field := field r @ [c]\<rparr>)
      else Inl CsvError)"

text \<open>A character is added, and only then the state changes.\<close>

definition add_char_then :: "parser_state \<Rightarrow> reader \<Rightarrow> char \<Rightarrow> error + reader" where
  "add_char_then s r c =
     (case parse_add_char r c of Inl e \<Rightarrow> Inl e | Inr r' \<Rightarrow> Inr (r'\<lparr>state := s\<rparr>))"

definition is_eol :: "char option \<Rightarrow> bool" where
  "is_eol c \<longleftrightarrow> c = None \<or> c = Some LF \<or> c = Some CR"

definition end_of_line :: "reader \<Rightarrow> char option \<Rightarrow> reader" where
  "end_of_line r c = r\<lparr>state := (if c = None then START_RECORD else EAT_CRNL)\<rparr>"

definition start_field :: "CSVTool \<Rightarrow> reader \<Rightarrow> char option \<Rightarrow> error + reader" where
  "start_field self r c =
     (if is_eol c then Inr (end_of_line (parse_save_field r) c)
      else if c = Some (quote_char self) then Inr (r\<lparr>state := IN_QUOTED_FIELD\<rparr>)
      else if c = Some (delimiter self) then Inr ((parse_save_field r)\<lparr>state := START_FIELD\<rparr>)
      else add_char_then IN_FIELD r (the c))"

definition parse_process_char :: "CSVTool \<Rightarrow> reader \<Rightarrow> char option \<Rightarrow> error + reader" where
  "parse_process_char self r c =
     (case state r of
        START_RECORD \<Rightarrow>
          (if c = None then Inr r
           else if c = Some LF \<or> c = Some CR then Inr (r\<lparr>state := EAT_CRNL\<rparr>)
           else start_field self r c)
      | START_FIELD \<Rightarrow> start_field self r c
      | IN_FIELD \<Rightarrow>
          (if is_eol c then Inr (end_of_line (parse_save_field r) c)
           else if c = Some (delimiter self) then Inr ((parse_save_field r)\<lparr>state := START_FIELD\<rparr>)
           else parse_add_char r (the c))
      | IN_QUOTED_FIELD \<Rightarrow>
          (if c = None then Inr r
           else if c = Some (quote_char self) then Inr (r\<lparr>state := QUOTE_IN_QUOTED_FIELD\<rparr>)
           else parse_add_char r (the c))
      | QUOTE_IN_QUOTED_FIELD \<Rightarrow>
          (if c = Some (quote_char self) then add_char_then IN_QUOTED_FIELD r (the c)
           else if c = Some (delimiter self) then Inr ((parse_save_field r)\<lparr>state := START_FIELD\<rparr>)
           else if is_eol c then Inr (end_of_line (parse_save_field r) c)
           else add_char_then IN_FIELD r (the c))
      | EAT_CRNL \<Rightarrow>
          (if c = Some LF \<or> c = Some CR then Inr r
           else if c = None then Inr (r\<lparr>state := START_RECORD\<rparr>)
           else Inl CsvError))"

text \<open>One line: its characters, then the end-of-line mark.\<close>

fun process_line :: "CSVTool \<Rightarrow> reader \<Rightarrow> string \<Rightarrow> error + reader" where
  "process_line self r [] = parse_process_char self r None"
| "process_line self r (c # cs) =
     (case parse_process_char self r (Some c) of
        Inl e \<Rightarrow> Inl e
      | Inr r' \<Rightarrow> process_line self r' cs)"

text \<open>
  \<^verbatim>\<open>list(reader)\<close>: a record is complete when a line leaves the machine in
  \<open>START_RECORD\<close>; otherwise the next line continues it. When the input ends inside a
  record the open field is saved and the record returned.
\<close>

fun reader_records :: "CSVTool \<Rightarrow> reader \<Rightarrow> string list \<Rightarrow> error + string list list" where
  "reader_records self r [] =
     (if field r \<noteq> [] \<or> state r = IN_QUOTED_FIELD then Inr [saved_fields (parse_save_field r)]
      else Inr [])"
| "reader_records self r (l # ls) =
     (case process_line self r l of
        Inl e \<Rightarrow> Inl e
      | Inr r' \<Rightarrow>
          if state r' = START_RECORD then
            (case reader_records self parse_reset ls of
               Inl e \<Rightarrow> Inl e
             | Inr recs \<Rightarrow> Inr (saved_fields r' # recs))
          else reader_records self r' ls)"

definition csv_reader :: "CSVTool \<Rightarrow> string \<Rightarrow> error + string list list" where
  "csv_reader self content = reader_records self parse_reset (splitlines content)"

subsection \<open>\<^verbatim>\<open>read_csv\<close> and \<^verbatim>\<open>write_csv\<close>\<close>

text \<open>
  An input source is given with the text it holds. A named file is opened in text mode,
  which translates the line ends. Standard input (the name \<^verbatim>\<open>-\<close>) is read as it is:
  on a POSIX system, the one modelled, \<^verbatim>\<open>sys.stdin\<close> does not translate line ends. An
  object with a \<^verbatim>\<open>read\<close> method returns its text as it is. A file that cannot be
  opened or decoded is outside the model.
\<close>

datatype input_source = Stdin string | File string | TextIO string

fun read_content :: "input_source \<Rightarrow> string" where
  "read_content (Stdin raw) = raw"
| "read_content (File raw) = universal_newlines raw"
| "read_content (TextIO s) = s"

type_synonym recordset = "string list option \<times> string list list"

definition read_csv :: "CSVTool \<Rightarrow> input_source \<Rightarrow> bool \<Rightarrow> error + recordset" where
  "read_csv self input_source has_header =
     (case csv_reader self (read_content input_source) of
        Inl e \<Rightarrow> Inl e
      | Inr rows \<Rightarrow>
          if has_header \<and> rows \<noteq> [] then Inr (Some (hd rows), tl rows)
          else Inr (None, rows))"

text \<open>Python's truth value of \<^verbatim>\<open>headers\<close>: \<^verbatim>\<open>None\<close> and the empty list are false.\<close>

fun truthy :: "string list option \<Rightarrow> bool" where
  "truthy None = False"
| "truthy (Some h) = (h \<noteq> [])"

definition write_csv :: "CSVTool \<Rightarrow> string list option \<Rightarrow> string list list \<Rightarrow> string" where
  "write_csv self headers rows =
     (if truthy headers then writerow self (the headers) else []) @ concat (map (writerow self) rows)"

subsection \<open>\<^verbatim>\<open>readable\<close>\<close>

text \<open>
  The width of column \<open>col_idx\<close>: the inner loop over the rows to display, keeping the
  largest length among the rows that have this column.
\<close>

definition column_width :: "string list list \<Rightarrow> nat \<Rightarrow> nat" where
  "column_width all_rows col_idx =
     fold (\<lambda>row max_width.
             if col_idx < length row then max max_width (length (row ! col_idx)) else max_width)
          all_rows 0"

text \<open>The outer loop runs over the columns of the first row to display.\<close>

definition column_widths :: "string list list \<Rightarrow> nat list" where
  "column_widths all_rows = map (column_width all_rows) [0..<length (hd all_rows)]"

definition format_row :: "nat list \<Rightarrow> string list \<Rightarrow> string list" where
  "format_row widths row =
     map (\<lambda>(col_idx, cell). if col_idx < length widths then ljust cell (widths ! col_idx) else cell)
         (enumerate 0 row)"

definition separator :: "nat list \<Rightarrow> string" where
  "separator widths = py_join ''-|-'' (map (\<lambda>width. replicate width CHR ''-'') widths)"

text \<open>
  The printing loop: one line for each row, and the separator after the row of index 0
  when a header is shown. The result is the list of the lines printed.
\<close>

definition print_rows :: "bool \<Rightarrow> nat list \<Rightarrow> string list list \<Rightarrow> string list" where
  "print_rows header_shown widths all_rows =
     concat (map (\<lambda>(row_idx, row).
                    py_join '' | '' (format_row widths row) #
                    (if row_idx = 0 \<and> header_shown then [separator widths] else []))
                 (enumerate 0 all_rows))"

definition readable :: "CSVTool \<Rightarrow> input_source \<Rightarrow> bool \<Rightarrow> error + string list" where
  "readable self input_source no_header =
     (case read_csv self input_source (\<not> no_header) of
        Inl e \<Rightarrow> Inl e
      | Inr (headers, rows) \<Rightarrow>
          if rows = [] \<and> \<not> truthy headers then Inr []
          else
            let all_rows = (if truthy headers \<and> \<not> no_header then [the headers] else []) @ rows
            in if all_rows = [] then Inr []
               else Inr (print_rows (truthy headers \<and> \<not> no_header) (column_widths all_rows) all_rows))"

subsection \<open>\<^verbatim>\<open>select_columns\<close>\<close>

text \<open>
  The column list: each part between commas is stripped; a digit string is a 1-based
  index; any other string is looked up in the header when there is one, and is passed
  over when there is none.
\<close>

fun select_indices :: "string list option \<Rightarrow> string list \<Rightarrow> error + int list" where
  "select_indices headers [] = Inr []"
| "select_indices headers (c # cols) =
     (let col = strip c in
      case (if isdigit col then
              (case py_int col of Inl e \<Rightarrow> Inl e | Inr n \<Rightarrow> Inr [n - 1])
            else if truthy headers then
              (case py_index (the headers) col of
                 None \<Rightarrow> Inl (ColumnNotFound col)
               | Some i \<Rightarrow> Inr [int i])
            else Inr [])
      of Inl e \<Rightarrow> Inl e
       | Inr found \<Rightarrow>
           (case select_indices headers cols of
              Inl e \<Rightarrow> Inl e
            | Inr col_indices \<Rightarrow> Inr (found @ col_indices)))"

text \<open>\<^verbatim>\<open>[headers[i] for i in col_indices if i < len(headers)]\<close>\<close>

fun select_header :: "string list \<Rightarrow> int list \<Rightarrow> error + string list" where
  "select_header headers [] = Inr []"
| "select_header headers (i # col_indices) =
     (if i < int (length headers) then
        (case py_getitem headers i of
           Inl e \<Rightarrow> Inl e
         | Inr v \<Rightarrow>
             (case select_header headers col_indices of
                Inl e \<Rightarrow> Inl e
              | Inr vs \<Rightarrow> Inr (v # vs)))
      else select_header headers col_indices)"

fun select_row :: "string list \<Rightarrow> int list \<Rightarrow> error + string list" where
  "select_row row [] = Inr []"
| "select_row row (i # col_indices) =
     (case (if i < int (length row) then py_getitem row i else Inr []) of
        Inl e \<Rightarrow> Inl e
      | Inr v \<Rightarrow>
          (case select_row row col_indices of
             Inl e \<Rightarrow> Inl e
           | Inr new_row \<Rightarrow> Inr (v # new_row)))"

fun select_rows :: "string list list \<Rightarrow> int list \<Rightarrow> error + string list list" where
  "select_rows [] col_indices = Inr []"
| "select_rows (row # rows) col_indices =
     (case select_row row col_indices of
        Inl e \<Rightarrow> Inl e
      | Inr new_row \<Rightarrow>
          (case select_rows rows col_indices of
             Inl e \<Rightarrow> Inl e
           | Inr new_rows \<Rightarrow> Inr (new_row # new_rows)))"

definition select_columns :: "CSVTool \<Rightarrow> input_source \<Rightarrow> string \<Rightarrow> bool \<Rightarrow> error + string" where
  "select_columns self input_source columns no_header =
     (case read_csv self input_source (\<not> no_header) of
        Inl e \<Rightarrow> Inl e
      | Inr (headers, rows) \<Rightarrow>
          (case select_indices headers (py_split CHR '','' columns) of
             Inl e \<Rightarrow> Inl e
           | Inr col_indices \<Rightarrow>
               (case (if truthy headers \<and> \<not> no_header
                      then map_sum id Some (select_header (the headers) col_indices)
                      else Inr None) of
                  Inl e \<Rightarrow> Inl e
                | Inr new_headers \<Rightarrow>
                    (case select_rows rows col_indices of
                       Inl e \<Rightarrow> Inl e
                     | Inr new_rows \<Rightarrow> Inr (write_csv self new_headers new_rows)))))"

subsection \<open>\<^verbatim>\<open>search\<close> and \<^verbatim>\<open>replace\<close>\<close>

text \<open>
  Both operations resolve their one column reference with the same code: the reference
  is taken as it is; a digit string is a 1-based index; any other string is a name, which
  needs a header that holds it.
\<close>

definition resolve_column :: "string list option \<Rightarrow> string \<Rightarrow> error + int" where
  "resolve_column headers column =
     (if isdigit column then
        (case py_int column of Inl e \<Rightarrow> Inl e | Inr n \<Rightarrow> Inr (n - 1))
      else if truthy headers then
        (case py_index (the headers) column of
           None \<Rightarrow> Inl (ColumnNotFound column)
         | Some i \<Rightarrow> Inr (int i))
      else Inl NameWithoutHeaders)"

text \<open>
  The filter loop. \<open>found\<close> stands for \<^verbatim>\<open>re.search(pattern, .)\<close> with the pattern of
  the call, a valid regular expression: it tells whether the pattern matches somewhere
  in the text.
\<close>

fun search_rows :: "(string \<Rightarrow> bool) \<Rightarrow> int \<Rightarrow> string list list \<Rightarrow> error + string list list" where
  "search_rows found col_index [] = Inr []"
| "search_rows found col_index (row # rows) =
     (if col_index < int (length row) then
        (case py_getitem row col_index of
           Inl e \<Rightarrow> Inl e
         | Inr v \<Rightarrow>
             (case search_rows found col_index rows of
                Inl e \<Rightarrow> Inl e
              | Inr filtered_rows \<Rightarrow> Inr (if found v then row # filtered_rows else filtered_rows)))
      else search_rows found col_index rows)"

definition search ::
  "CSVTool \<Rightarrow> (string \<Rightarrow> string \<Rightarrow> bool) \<Rightarrow> input_source \<Rightarrow> string \<Rightarrow> string \<Rightarrow> bool \<Rightarrow> error + string"
where
  "search self re_search input_source column pattern no_header =
     (case read_csv self input_source (\<not> no_header) of
        Inl e \<Rightarrow> Inl e
      | Inr (headers, rows) \<Rightarrow>
          (case resolve_column headers column of
             Inl e \<Rightarrow> Inl e
           | Inr col_index \<Rightarrow>
               (case search_rows (re_search pattern) col_index rows of
                  Inl e \<Rightarrow> Inl e
                | Inr filtered_rows \<Rightarrow>
                    Inr (write_csv self (if \<not> no_header then headers else None) filtered_rows))))"

text \<open>The replacement loop: the rows are updated in place, one after the other.\<close>

fun replace_rows :: "int \<Rightarrow> string \<Rightarrow> string \<Rightarrow> string list list \<Rightarrow> error + string list list" where
  "replace_rows col_index old_value new_value [] = Inr []"
| "replace_rows col_index old_value new_value (row # rows) =
     (case (if col_index < int (length row) then
              (case py_getitem row col_index of
                 Inl e \<Rightarrow> Inl e
               | Inr v \<Rightarrow> if v = old_value then py_setitem row col_index new_value else Inr row)
            else Inr row) of
        Inl e \<Rightarrow> Inl e
      | Inr row' \<Rightarrow>
          (case replace_rows col_index old_value new_value rows of
             Inl e \<Rightarrow> Inl e
           | Inr rows' \<Rightarrow> Inr (row' # rows')))"

definition replace ::
  "CSVTool \<Rightarrow> input_source \<Rightarrow> string \<Rightarrow> string \<Rightarrow> string \<Rightarrow> bool \<Rightarrow> error + string"
where
  "replace self input_source column old_value new_value no_header =
     (case read_csv self input_source (\<not> no_header) of
        Inl e \<Rightarrow> Inl e
      | Inr (headers, rows) \<Rightarrow>
          (case resolve_column headers column of
             Inl e \<Rightarrow> Inl e
           | Inr col_index \<Rightarrow>
               (case replace_rows col_index old_value new_value rows of
                  Inl e \<Rightarrow> Inl e
                | Inr rows' \<Rightarrow>
                    Inr (write_csv self (if \<not> no_header then headers else None) rows'))))"

subsection \<open>A matcher for the examples\<close>

text \<open>
  \<^verbatim>\<open>re.search\<close> is a parameter of the model. The examples use the matcher below: what
  \<^verbatim>\<open>re.search\<close> computes for a pattern made of ordinary characters, which is found
  anywhere in the text, with an optional \<open>^\<close> in front, which ties it to the start.
\<close>

fun starts_with :: "string \<Rightarrow> string \<Rightarrow> bool" where
  "starts_with [] s = True"
| "starts_with (p # ps) [] = False"
| "starts_with (p # ps) (c # cs) = (p = c \<and> starts_with ps cs)"

fun contains :: "string \<Rightarrow> string \<Rightarrow> bool" where
  "contains p [] = (p = [])"
| "contains p (c # cs) = (starts_with p (c # cs) \<or> contains p cs)"

definition literal_search :: "string \<Rightarrow> string \<Rightarrow> bool" where
  "literal_search pattern s =
     (case pattern of
        c # p \<Rightarrow> if c = CHR ''^'' then starts_with p s else contains pattern s
      | [] \<Rightarrow> True)"

subsection \<open>Auxiliary notions for the proofs\<close>

text \<open>
  The dialects for which the round trip is proved: the delimiter and the quote character
  differ and neither is a line end. The reader is followed over a text instead of over its
  lines; \<open>emit\<close> puts a finished record in front of the records that follow;
  \<open>with_char\<close> is the reader after a character that still fits the field. A field is
  at its end in the three states in which a delimiter or a line end saves it. The text of
  a record is what \<^verbatim>\<open>writerow\<close> writes before the line terminator, and the records that
  \<^verbatim>\<open>write_csv\<close> writes are the header, when it counts as one, and the rows.
\<close>

definition valid_dialect :: "CSVTool \<Rightarrow> bool" where
  "valid_dialect self \<longleftrightarrow>
     delimiter self \<noteq> quote_char self \<and>
     delimiter self \<noteq> CR \<and> delimiter self \<noteq> LF \<and>
     quote_char self \<noteq> CR \<and> quote_char self \<noteq> LF"

definition reader_text :: "CSVTool \<Rightarrow> reader \<Rightarrow> string \<Rightarrow> error + string list list" where
  "reader_text self r t = reader_records self r (splitlines t)"

definition emit :: "string list \<Rightarrow> error + string list list \<Rightarrow> error + string list list" where
  "emit record rest = (case rest of Inl e \<Rightarrow> Inl e | Inr recs \<Rightarrow> Inr (record # recs))"

definition with_char :: "reader \<Rightarrow> char \<Rightarrow> reader" where
  "with_char r c = r\<lparr>field := field r @ [c]\<rparr>"

definition field_end :: "reader \<Rightarrow> bool" where
  "field_end r \<longleftrightarrow> state r = START_FIELD \<or> state r = IN_FIELD \<or> state r = QUOTE_IN_QUOTED_FIELD"

definition terminator :: "string \<Rightarrow> bool" where
  "terminator t \<longleftrightarrow> t = [CR, LF] \<or> t = [LF]"

definition record_text :: "CSVTool \<Rightarrow> string list \<Rightarrow> string" where
  "record_text self row =
     (let rec = py_join [delimiter self] (map (join_append self) row)
      in if row \<noteq> [] \<and> rec = [] then [quote_char self, quote_char self] else rec)"

definition written_records :: "string list option \<Rightarrow> string list list \<Rightarrow> string list list" where
  "written_records headers rows = (if truthy headers then [the headers] else []) @ rows"

section \<open>Writing a record set and reading it back\<close>

lemma splitlines_eq_Nil: "splitlines t = [] \<longleftrightarrow> t = []"
  by (cases t) (auto split: list.splits)

lemma reader_text_Nil:
  "reader_text self parse_reset [] = Inr []"
  by (simp add: reader_text_def parse_reset_def)

lemma reader_text_step:
  assumes "c \<noteq> LF" "cs \<noteq> []"
  shows "reader_text self r (c # cs) =
           (case parse_process_char self r (Some c) of
              Inl e \<Rightarrow> Inl e
            | Inr r' \<Rightarrow> reader_text self r' cs)"
proof -
  from assms(2) obtain l ls where "splitlines cs = l # ls"
    by (cases "splitlines cs") (simp_all add: splitlines_eq_Nil)
  with assms(1) show ?thesis
    by (simp add: reader_text_def split: sum.splits)
qed

lemma reader_text_LF:
  "reader_text self r (LF # cs) =
     (case parse_process_char self r (Some LF) of
        Inl e \<Rightarrow> Inl e
      | Inr r1 \<Rightarrow>
         (case parse_process_char self r1 None of
            Inl e \<Rightarrow> Inl e
          | Inr r2 \<Rightarrow>
              if state r2 = START_RECORD then emit (saved_fields r2) (reader_text self parse_reset cs)
              else reader_text self r2 cs))"
  by (simp add: reader_text_def emit_def split: sum.splits)

lemma needs_quote_Cons:
  "needs_quote self (c # u) \<longleftrightarrow>
     c = delimiter self \<or> c = quote_char self \<or> c = CR \<or> c = LF \<or> needs_quote self u"
  by (simp add: needs_quote_def)

lemma needs_quote_Nil: "\<not> needs_quote self []"
  by (simp add: needs_quote_def)

lemma double_quotes_plain: "\<not> needs_quote self u \<Longrightarrow> double_quotes self u = u"
  by (induction u) (simp_all add: needs_quote_Cons double_quotes_def)

lemma double_quotes_Cons:
  "double_quotes self (c # f) = (if c = quote_char self then [c, c] else [c]) @ double_quotes self f"
  by (simp add: double_quotes_def)

lemma parse_add_char_room:
  "int (length (field r)) < field_limit \<Longrightarrow> parse_add_char r c = Inr (with_char r c)"
  by (simp add: parse_add_char_def with_char_def)

lemma parse_add_char_full:
  "field_limit \<le> int (length (field r)) \<Longrightarrow> parse_add_char r c = Inl CsvError"
  by (simp add: parse_add_char_def)

lemma in_field_chars:
  assumes "state r = IN_FIELD" "\<not> needs_quote self u" "rest \<noteq> []"
      and "int (length (field r)) + int (length u) \<le> field_limit"
  shows "reader_text self r (u @ rest) = reader_text self (r\<lparr>field := field r @ u\<rparr>) rest"
  using assms
proof (induction u arbitrary: r)
  case Nil
  then show ?case by simp
next
  case (Cons c u)
  from Cons.prems have c: "c \<noteq> delimiter self" "c \<noteq> quote_char self" "c \<noteq> CR" "c \<noteq> LF"
    and u: "\<not> needs_quote self u"
    by (simp_all add: needs_quote_Cons)
  have room: "int (length (field r)) < field_limit"
    using Cons.prems(4) by simp
  have step: "parse_process_char self r (Some c) = Inr (with_char r c)"
    using Cons.prems(1) c by (simp add: parse_process_char_def is_eol_def parse_add_char_room [OF room])
  have "reader_text self r ((c # u) @ rest) = reader_text self (with_char r c) (u @ rest)"
    using c(4) Cons.prems(3) by (simp add: reader_text_step step)
  also have "\<dots> = reader_text self ((with_char r c)\<lparr>field := field (with_char r c) @ u\<rparr>) rest"
    using Cons.prems(1,4) u Cons.prems(3) by (intro Cons.IH) (simp_all add: with_char_def)
  finally show ?case by (simp add: with_char_def)
qed

lemma start_field_chars:
  assumes "state r = START_FIELD" "\<not> needs_quote self u" "u \<noteq> []" "rest \<noteq> []"
      and "int (length (field r)) + int (length u) \<le> field_limit"
  shows "reader_text self r (u @ rest) = reader_text self (r\<lparr>state := IN_FIELD, field := field r @ u\<rparr>) rest"
proof -
  from assms(3) obtain c v where u: "u = c # v" by (cases u) auto
  with assms(2) have c: "c \<noteq> delimiter self" "c \<noteq> quote_char self" "c \<noteq> CR" "c \<noteq> LF"
    and v: "\<not> needs_quote self v"
    by (simp_all add: needs_quote_Cons)
  have room: "int (length (field r)) < field_limit"
    using assms(5) u by simp
  let ?r1 = "(with_char r c)\<lparr>state := IN_FIELD\<rparr>"
  have step: "parse_process_char self r (Some c) = Inr ?r1"
    using assms(1) c
    by (simp add: parse_process_char_def start_field_def is_eol_def add_char_then_def
          parse_add_char_room [OF room])
  have "reader_text self r (u @ rest) = reader_text self ?r1 (v @ rest)"
    using c(4) assms(4) by (simp add: u reader_text_step step)
  also have "\<dots> = reader_text self (?r1\<lparr>field := field ?r1 @ v\<rparr>) rest"
    using v assms(4,5) u by (intro in_field_chars) (simp_all add: with_char_def)
  finally show ?thesis by (simp add: with_char_def u)
qed

lemma quoted_chars:
  assumes "valid_dialect self" "state r = IN_QUOTED_FIELD" "rest \<noteq> []"
      and "int (length (field r)) + int (length f) \<le> field_limit"
  shows "reader_text self r (double_quotes self f @ quote_char self # rest) =
           reader_text self (r\<lparr>state := QUOTE_IN_QUOTED_FIELD, field := field r @ f\<rparr>) rest"
  using assms(2,4)
proof (induction f arbitrary: r)
  case Nil
  have "parse_process_char self r (Some (quote_char self)) = Inr (r\<lparr>state := QUOTE_IN_QUOTED_FIELD\<rparr>)"
    using Nil by (simp add: parse_process_char_def)
  moreover have "quote_char self \<noteq> LF"
    using assms(1) by (simp add: valid_dialect_def)
  ultimately show ?case
    using assms(3) by (simp add: double_quotes_def reader_text_step)
next
  case (Cons c f)
  let ?tail = "double_quotes self f @ quote_char self # rest"
  have q: "quote_char self \<noteq> LF"
    using assms(1) by (simp add: valid_dialect_def)
  have tail: "?tail \<noteq> []" by simp
  have room: "int (length (field r)) < field_limit"
    using Cons.prems(2) by simp
  let ?r1 = "with_char r c"
  have r1: "state ?r1 = IN_QUOTED_FIELD"
    using Cons.prems by (simp add: with_char_def)
  have r1_room: "int (length (field ?r1)) + int (length f) \<le> field_limit"
    using Cons.prems(2) by (simp add: with_char_def)
  have "reader_text self r (double_quotes self (c # f) @ quote_char self # rest) = reader_text self ?r1 ?tail"
  proof (cases "c = quote_char self")
    case True
    let ?q = "quote_char self"
    have s1: "parse_process_char self r (Some ?q) = Inr (r\<lparr>state := QUOTE_IN_QUOTED_FIELD\<rparr>)"
      using Cons.prems by (simp add: parse_process_char_def)
    have room': "int (length (field (r\<lparr>state := QUOTE_IN_QUOTED_FIELD\<rparr>))) < field_limit"
      using room by simp
    have s2: "parse_process_char self (r\<lparr>state := QUOTE_IN_QUOTED_FIELD\<rparr>) (Some ?q) = Inr (with_char r ?q)"
      using Cons.prems
      by (simp add: parse_process_char_def add_char_then_def parse_add_char_room [OF room'] with_char_def)
    have "reader_text self r (?q # ?q # ?tail) = reader_text self (r\<lparr>state := QUOTE_IN_QUOTED_FIELD\<rparr>) (?q # ?tail)"
      using q by (simp add: reader_text_step s1)
    also have "\<dots> = reader_text self (with_char r ?q) ?tail"
      using q by (simp add: reader_text_step s2)
    finally show ?thesis unfolding True by (simp add: double_quotes_Cons)
  next
    case False
    have s1: "parse_process_char self r (Some c) = Inr ?r1"
      using Cons.prems False by (simp add: parse_process_char_def parse_add_char_room [OF room])
    show ?thesis
    proof (cases "c = LF")
      case True
      have s2: "parse_process_char self ?r1 None = Inr ?r1"
        using r1 by (simp add: parse_process_char_def)
      show ?thesis
        using False r1 s1 s2 unfolding True
        by (simp add: double_quotes_Cons reader_text_LF)
    next
      case nl: False
      show ?thesis
        using False nl by (simp add: double_quotes_Cons reader_text_step s1)
    qed
  qed
  also have "\<dots> = reader_text self (?r1\<lparr>state := QUOTE_IN_QUOTED_FIELD, field := field ?r1 @ f\<rparr>) rest"
    using r1 r1_room by (rule Cons.IH)
  finally show ?case by (simp add: with_char_def)
qed

lemma field_roundtrip:
  assumes "valid_dialect self" "state r = START_FIELD" "field r = []" "rest \<noteq> []"
      and "int (length f) \<le> field_limit"
  shows "\<exists>r'. reader_text self r (join_append self f @ rest) = reader_text self r' rest
            \<and> field_end r' \<and> field r' = f \<and> saved_fields r' = saved_fields r"
proof (cases "needs_quote self f")
  case True
  let ?q = "quote_char self"
  let ?r1 = "r\<lparr>state := IN_QUOTED_FIELD\<rparr>"
  have q: "?q \<noteq> LF" "?q \<noteq> CR"
    using assms(1) by (simp_all add: valid_dialect_def)
  have s1: "parse_process_char self r (Some ?q) = Inr ?r1"
    using assms(2) q by (simp add: parse_process_char_def start_field_def is_eol_def)
  have "reader_text self r (join_append self f @ rest) = reader_text self ?r1 (double_quotes self f @ ?q # rest)"
    using True q by (simp add: join_append_def reader_text_step s1)
  also have "\<dots> = reader_text self (?r1\<lparr>state := QUOTE_IN_QUOTED_FIELD, field := field ?r1 @ f\<rparr>) rest"
    using assms(1) _ assms(4) by (rule quoted_chars) (simp_all add: assms(3,5))
  finally show ?thesis
    using assms(3) by (intro exI [of _ "?r1\<lparr>state := QUOTE_IN_QUOTED_FIELD, field := field ?r1 @ f\<rparr>"])
                      (simp add: field_end_def)
next
  case False
  then have plain: "join_append self f = f"
    by (simp add: join_append_def double_quotes_plain)
  show ?thesis
  proof (cases "f = []")
    case True
    with assms(2,3) plain show ?thesis
      by (intro exI [of _ r]) (simp add: field_end_def)
  next
    case nonempty: False
    have "reader_text self r (f @ rest) = reader_text self (r\<lparr>state := IN_FIELD, field := field r @ f\<rparr>) rest"
      using assms(2) False nonempty assms(4) by (rule start_field_chars) (simp add: assms(3,5))
    then show ?thesis
      using assms(3) by (intro exI [of _ "r\<lparr>state := IN_FIELD, field := field r @ f\<rparr>"])
                        (simp add: plain field_end_def)
  qed
qed

lemma after_field_delimiter:
  assumes "valid_dialect self" "field_end r" "rest \<noteq> []"
  shows "reader_text self r (delimiter self # rest) =
           reader_text self ((parse_save_field r)\<lparr>state := START_FIELD\<rparr>) rest"
proof -
  have d: "delimiter self \<noteq> LF" "delimiter self \<noteq> CR" "delimiter self \<noteq> quote_char self"
    using assms(1) by (simp_all add: valid_dialect_def)
  have "parse_process_char self r (Some (delimiter self)) = Inr ((parse_save_field r)\<lparr>state := START_FIELD\<rparr>)"
    using assms(2) d by (auto simp: field_end_def parse_process_char_def start_field_def is_eol_def)
  then show ?thesis
    using d(1) assms(3) by (simp add: reader_text_step)
qed

lemma eat_crnl:
  assumes "state r = EAT_CRNL"
  shows "reader_text self r (LF # rest) = emit (saved_fields r) (reader_text self parse_reset rest)"
proof -
  have "parse_process_char self r (Some LF) = Inr r"
    using assms by (simp add: parse_process_char_def)
  moreover have "parse_process_char self r None = Inr (r\<lparr>state := START_RECORD\<rparr>)"
    using assms by (simp add: parse_process_char_def)
  ultimately show ?thesis
    by (simp add: reader_text_LF)
qed

lemma after_field_CRLF:
  assumes "valid_dialect self" "field_end r"
  shows "reader_text self r (CR # LF # rest) =
           emit (saved_fields r @ [field r]) (reader_text self parse_reset rest)"
proof -
  have d: "delimiter self \<noteq> CR" "quote_char self \<noteq> CR"
    using assms(1) by (simp_all add: valid_dialect_def)
  let ?r1 = "(parse_save_field r)\<lparr>state := EAT_CRNL\<rparr>"
  have "parse_process_char self r (Some CR) = Inr ?r1"
    using assms(2) d
    by (auto simp: field_end_def parse_process_char_def start_field_def is_eol_def end_of_line_def)
  then have "reader_text self r (CR # LF # rest) = reader_text self ?r1 (LF # rest)"
    by (simp add: reader_text_step)
  also have "\<dots> = emit (saved_fields ?r1) (reader_text self parse_reset rest)"
    by (rule eat_crnl) simp
  finally show ?thesis by (simp add: parse_save_field_def)
qed

lemma after_field_LF:
  assumes "valid_dialect self" "field_end r"
  shows "reader_text self r (LF # rest) =
           emit (saved_fields r @ [field r]) (reader_text self parse_reset rest)"
proof -
  have d: "delimiter self \<noteq> LF" "quote_char self \<noteq> LF"
    using assms(1) by (simp_all add: valid_dialect_def)
  let ?r1 = "(parse_save_field r)\<lparr>state := EAT_CRNL\<rparr>"
  have "parse_process_char self r (Some LF) = Inr ?r1"
    using assms(2) d
    by (auto simp: field_end_def parse_process_char_def start_field_def is_eol_def end_of_line_def)
  moreover have "parse_process_char self ?r1 None = Inr (?r1\<lparr>state := START_RECORD\<rparr>)"
    by (simp add: parse_process_char_def)
  ultimately show ?thesis
    by (simp add: reader_text_LF parse_save_field_def)
qed

lemma after_field_terminator:
  assumes "valid_dialect self" "field_end r" "terminator t"
  shows "reader_text self r (t @ rest) =
           emit (saved_fields r @ [field r]) (reader_text self parse_reset rest)"
  using assms after_field_CRLF [of self r rest] after_field_LF [of self r rest]
  by (auto simp: terminator_def)

lemma fields_roundtrip:
  assumes "valid_dialect self" "terminator t" "state r = START_FIELD" "field r = []"
      and "\<forall>g\<in>set (f # fs). int (length g) \<le> field_limit"
  shows "reader_text self r (py_join [delimiter self] (map (join_append self) (f # fs)) @ t @ rest) =
           emit (saved_fields r @ f # fs) (reader_text self parse_reset rest)"
  using assms(3,4,5)
proof (induction fs arbitrary: f r)
  case Nil
  have t: "t @ rest \<noteq> []"
    using assms(2) by (auto simp: terminator_def)
  have fit: "int (length f) \<le> field_limit"
    using Nil(3) by simp
  obtain r' where r': "reader_text self r (join_append self f @ t @ rest) = reader_text self r' (t @ rest)"
      "field_end r'" "field r' = f" "saved_fields r' = saved_fields r"
    using field_roundtrip [OF assms(1) Nil(1) Nil(2) t fit] by auto
  then show ?case
    by (simp add: after_field_terminator [OF assms(1) _ assms(2)])
next
  case (Cons g fs)
  let ?tail = "py_join [delimiter self] (map (join_append self) (g # fs)) @ t @ rest"
  have tail: "?tail \<noteq> []"
    using assms(2) by (auto simp: terminator_def)
  have fit: "int (length f) \<le> field_limit"
    using Cons.prems(3) by simp
  have fits: "\<forall>h\<in>set (g # fs). int (length h) \<le> field_limit"
    using Cons.prems(3) by simp
  have front: "delimiter self # ?tail \<noteq> []" by simp
  obtain r' where r': "reader_text self r (join_append self f @ delimiter self # ?tail)
        = reader_text self r' (delimiter self # ?tail)"
      "field_end r'" "field r' = f" "saved_fields r' = saved_fields r"
    using field_roundtrip [OF assms(1) Cons.prems(1) Cons.prems(2) front fit] by auto
  let ?r2 = "(parse_save_field r')\<lparr>state := START_FIELD\<rparr>"
  have "reader_text self r' (delimiter self # ?tail) = reader_text self ?r2 ?tail"
    using assms(1) r'(2) tail by (rule after_field_delimiter)
  also have "\<dots> = emit (saved_fields ?r2 @ g # fs) (reader_text self parse_reset rest)"
    using fits by (intro Cons.IH) (simp_all add: parse_save_field_def)
  finally show ?case
    using r' by (simp add: parse_save_field_def)
qed

lemma writerow_record_text: "writerow self row = record_text self row @ [CR, LF]"
  by (simp add: writerow_def record_text_def Let_def)

lemma join_append_eq_Nil: "join_append self f = [] \<longleftrightarrow> f = []"
proof (cases "needs_quote self f")
  case True
  then show ?thesis by (auto simp: join_append_def needs_quote_Nil)
next
  case False
  then show ?thesis by (simp add: join_append_def double_quotes_plain)
qed

lemma join_append_hd:
  assumes "valid_dialect self" "join_append self f = c # cs"
  shows "c \<noteq> CR \<and> c \<noteq> LF"
proof (cases "needs_quote self f")
  case True
  with assms show ?thesis by (auto simp: join_append_def valid_dialect_def)
next
  case False
  with assms(2) have "f = c # cs" by (simp add: join_append_def double_quotes_plain)
  with False show ?thesis by (simp add: needs_quote_Cons)
qed

lemma record_hd:
  assumes "valid_dialect self" "py_join [delimiter self] (map (join_append self) (f # fs)) = c # cs"
  shows "c \<noteq> CR \<and> c \<noteq> LF"
proof (cases "join_append self f")
  case Nil
  with assms(2) obtain g gs where "fs = g # gs" by (cases fs) auto
  with Nil assms show ?thesis by (auto simp: valid_dialect_def)
next
  case (Cons d ds)
  with assms(2) have "c = d" by (cases fs) auto
  with Cons assms(1) show ?thesis using join_append_hd by blast
qed

lemma start_record_as_start_field:
  assumes "state r = START_RECORD" "c \<noteq> CR" "c \<noteq> LF" "cs \<noteq> []"
  shows "reader_text self r (c # cs) = reader_text self (r\<lparr>state := START_FIELD\<rparr>) (c # cs)"
proof -
  have "parse_process_char self r (Some c) = parse_process_char self (r\<lparr>state := START_FIELD\<rparr>) (Some c)"
    using assms(1-3)
    by (simp add: parse_process_char_def start_field_def is_eol_def parse_save_field_def
          add_char_then_def parse_add_char_def)
  then show ?thesis
    using assms(3,4) by (simp add: reader_text_step)
qed

lemma record_roundtrip:
  assumes "valid_dialect self" "terminator t"
      and "\<forall>f\<in>set row. int (length f) \<le> field_limit"
  shows "reader_text self parse_reset (record_text self row @ t @ rest) =
           emit row (reader_text self parse_reset rest)"
proof (cases row)
  case Nil
  have "reader_text self parse_reset (CR # LF # rest) = emit [] (reader_text self parse_reset rest)"
  proof -
    let ?r1 = "parse_reset\<lparr>state := EAT_CRNL\<rparr>"
    have "parse_process_char self parse_reset (Some CR) = Inr ?r1"
      by (simp add: parse_process_char_def parse_reset_def)
    then have "reader_text self parse_reset (CR # LF # rest) = reader_text self ?r1 (LF # rest)"
      by (simp add: reader_text_step)
    also have "\<dots> = emit (saved_fields ?r1) (reader_text self parse_reset rest)"
      by (rule eat_crnl) simp
    finally show ?thesis by (simp add: parse_reset_def)
  qed
  moreover have "reader_text self parse_reset (LF # rest) = emit [] (reader_text self parse_reset rest)"
  proof -
    let ?r1 = "parse_reset\<lparr>state := EAT_CRNL\<rparr>"
    have "parse_process_char self parse_reset (Some LF) = Inr ?r1"
      by (simp add: parse_process_char_def parse_reset_def)
    moreover have "parse_process_char self ?r1 None = Inr parse_reset"
      by (simp add: parse_process_char_def parse_reset_def)
    ultimately show ?thesis
      by (simp add: reader_text_LF parse_reset_def)
  qed
  ultimately show ?thesis
    using assms(2) Nil by (auto simp: record_text_def terminator_def)
next
  case (Cons f fs)
  let ?rec = "py_join [delimiter self] (map (join_append self) (f # fs))"
  have t: "t @ rest \<noteq> []"
    using assms(2) by (auto simp: terminator_def)
  have fits: "\<forall>g\<in>set (f # fs). int (length g) \<le> field_limit"
    using assms(3) Cons by simp
  show ?thesis
  proof (cases "?rec")
    case Nil
    have "fs = []"
    proof (cases fs)
      case (Cons g gs)
      with Nil show ?thesis by simp
    qed simp
    with Nil have f: "f = []" by (simp add: join_append_eq_Nil)
    let ?q = "quote_char self"
    have q: "?q \<noteq> LF" "?q \<noteq> CR" "?q \<noteq> delimiter self"
      using assms(1) by (auto simp: valid_dialect_def)
    let ?r1 = "parse_reset\<lparr>state := IN_QUOTED_FIELD\<rparr>"
    let ?r2 = "parse_reset\<lparr>state := QUOTE_IN_QUOTED_FIELD\<rparr>"
    have s1: "parse_process_char self parse_reset (Some ?q) = Inr ?r1"
      using q by (simp add: parse_process_char_def parse_reset_def start_field_def is_eol_def)
    have s2: "parse_process_char self ?r1 (Some ?q) = Inr ?r2"
      by (simp add: parse_process_char_def parse_reset_def)
    have "reader_text self parse_reset (?q # ?q # t @ rest) = reader_text self ?r1 (?q # t @ rest)"
      using q by (simp add: reader_text_step s1)
    also have "\<dots> = reader_text self ?r2 (t @ rest)"
      using q t by (simp add: reader_text_step s2)
    also have "\<dots> = emit (saved_fields ?r2 @ [field ?r2]) (reader_text self parse_reset rest)"
      by (rule after_field_terminator [OF assms(1) _ assms(2)]) (simp add: field_end_def)
    finally show ?thesis
      using Nil Cons f \<open>fs = []\<close> by (simp add: record_text_def parse_reset_def)
  next
    case (Cons c cs)
    then have c: "c \<noteq> CR \<and> c \<noteq> LF"
      using record_hd [OF assms(1)] by blast
    let ?r0 = "parse_reset\<lparr>state := START_FIELD\<rparr>"
    have "reader_text self parse_reset (?rec @ t @ rest) = reader_text self ?r0 (?rec @ t @ rest)"
      using c t unfolding Cons
      by (simp add: start_record_as_start_field parse_reset_def)
    also have "\<dots> = emit (saved_fields ?r0 @ f # fs) (reader_text self parse_reset rest)"
      using assms(1,2) _ _ fits by (rule fields_roundtrip) (simp_all add: parse_reset_def)
    finally show ?thesis
      using Cons \<open>row = f # fs\<close> by (simp add: record_text_def parse_reset_def)
  qed
qed

lemma records_roundtrip:
  assumes "valid_dialect self" "terminator t"
      and "\<forall>row\<in>set rows. \<forall>f\<in>set row. int (length f) \<le> field_limit"
  shows "reader_text self parse_reset (concat (map (\<lambda>row. record_text self row @ t) rows)) = Inr rows"
  using assms(3)
proof (induction rows)
  case Nil
  show ?case by (simp add: reader_text_Nil)
next
  case (Cons row rows)
  then have fit: "\<forall>f\<in>set row. int (length f) \<le> field_limit"
    by simp
  from Cons show ?case
    using record_roundtrip [OF assms(1,2) fit, of "concat (map (\<lambda>row. record_text self row @ t) rows)"]
    by (simp add: emit_def)
qed

lemma csv_reader_writerows:
  assumes "valid_dialect self"
      and "\<forall>row\<in>set rows. \<forall>f\<in>set row. int (length f) \<le> field_limit"
  shows "csv_reader self (concat (map (writerow self) rows)) = Inr rows"
proof -
  have t: "terminator [CR, LF]" by (simp add: terminator_def)
  have w: "writerow self = (\<lambda>row. record_text self row @ [CR, LF])"
    by (rule ext) (rule writerow_record_text)
  show ?thesis
    unfolding csv_reader_def w
    using records_roundtrip [OF assms(1) t assms(2)] by (simp only: reader_text_def)
qed

lemma universal_newlines_Cons:
  "c \<noteq> CR \<Longrightarrow> universal_newlines (c # t) = c # universal_newlines t"
  by (cases t) simp_all

lemma universal_newlines_append:
  "CR \<notin> set u \<Longrightarrow> universal_newlines (u @ v) = u @ universal_newlines v"
proof (induction u)
  case Nil
  show ?case by simp
next
  case (Cons c u)
  then have "c \<noteq> CR" by auto
  with Cons show ?case by (simp add: universal_newlines_Cons)
qed

lemma universal_newlines_line:
  "CR \<notin> set u \<Longrightarrow> universal_newlines (u @ CR # LF # v) = u @ LF # universal_newlines v"
  by (simp add: universal_newlines_append)

lemma set_double_quotes: "set (double_quotes self f) = set f"
  by (induction f) (auto simp: double_quotes_Cons double_quotes_def)

lemma set_join_append: "set (join_append self f) \<subseteq> insert (quote_char self) (set f)"
  by (auto simp: join_append_def set_double_quotes)

lemma set_py_join: "set (py_join [d] xs) \<subseteq> insert d (\<Union>x\<in>set xs. set x)"
  by (induction "[d]" xs rule: py_join.induct) auto

lemma record_text_no_CR:
  assumes "valid_dialect self" "\<forall>f\<in>set row. CR \<notin> set f"
  shows "CR \<notin> set (record_text self row)"
proof -
  have q: "quote_char self \<noteq> CR" and d: "delimiter self \<noteq> CR"
    using assms(1) by (simp_all add: valid_dialect_def)
  have "CR \<notin> set (join_append self f)" if "f \<in> set row" for f
    using that assms(2) q set_join_append [of self f] by auto
  then have "CR \<notin> set (py_join [delimiter self] (map (join_append self) row))"
    using d set_py_join [of "delimiter self" "map (join_append self) row"] by auto
  then show ?thesis
    using q by (auto simp: record_text_def Let_def)
qed

lemma universal_newlines_records:
  assumes "valid_dialect self" "\<forall>row\<in>set rows. \<forall>f\<in>set row. CR \<notin> set f"
  shows "universal_newlines (concat (map (\<lambda>row. record_text self row @ [CR, LF]) rows)) =
           concat (map (\<lambda>row. record_text self row @ [LF]) rows)"
  using assms(2)
proof (induction rows)
  case Nil
  show ?case by simp
next
  case (Cons row rows)
  then have "CR \<notin> set (record_text self row)"
    using record_text_no_CR [OF assms(1), of row] by simp
  with Cons show ?case
    by (simp add: universal_newlines_line)
qed

lemma csv_reader_text_mode:
  assumes "valid_dialect self"
      and "\<forall>row\<in>set rows. \<forall>f\<in>set row. int (length f) \<le> field_limit"
      and "\<forall>row\<in>set rows. \<forall>f\<in>set row. CR \<notin> set f"
  shows "csv_reader self (universal_newlines (concat (map (writerow self) rows))) = Inr rows"
proof -
  have t: "terminator [LF]" by (simp add: terminator_def)
  have w: "writerow self = (\<lambda>row. record_text self row @ [CR, LF])"
    by (rule ext) (rule writerow_record_text)
  show ?thesis
    unfolding csv_reader_def w universal_newlines_records [OF assms(1,3)]
    using records_roundtrip [OF assms(1) t assms(2)] by (simp only: reader_text_def)
qed

lemma write_csv_records:
  "write_csv self headers rows = concat (map (writerow self) (written_records headers rows))"
  by (simp add: write_csv_def written_records_def)

lemma split_written_records:
  assumes "headers \<noteq> Some []"
      and "if has_header then headers \<noteq> None \<or> rows = [] else headers = None"
  shows "(if has_header \<and> written_records headers rows \<noteq> []
          then Inr (Some (hd (written_records headers rows)), tl (written_records headers rows))
          else Inr (None, written_records headers rows)) = (Inr (headers, rows) :: error + recordset)"
  using assms by (cases headers) (auto simp: written_records_def split: if_splits)

lemma roundtrip_dialect:
  assumes "valid_dialect self"
      and "headers \<noteq> Some []"
      and "if has_header then headers \<noteq> None \<or> rows = [] else headers = None"
      and "\<forall>row\<in>set (written_records headers rows). \<forall>f\<in>set row. int (length f) \<le> field_limit"
  shows "read_csv self (TextIO (write_csv self headers rows)) has_header = Inr (headers, rows)"
    and "read_csv self (Stdin (write_csv self headers rows)) has_header = Inr (headers, rows)"
    and "\<forall>row\<in>set (written_records headers rows). \<forall>f\<in>set row. CR \<notin> set f \<Longrightarrow>
         read_csv self (File (write_csv self headers rows)) has_header = Inr (headers, rows)"
proof -
  have plain: "csv_reader self (write_csv self headers rows) = Inr (written_records headers rows)"
    unfolding write_csv_records by (rule csv_reader_writerows [OF assms(1,4)])
  show "read_csv self (TextIO (write_csv self headers rows)) has_header = Inr (headers, rows)"
    using split_written_records [OF assms(2,3)] plain by (simp add: read_csv_def)
  show "read_csv self (Stdin (write_csv self headers rows)) has_header = Inr (headers, rows)"
    using split_written_records [OF assms(2,3)] plain by (simp add: read_csv_def)
  assume "\<forall>row\<in>set (written_records headers rows). \<forall>f\<in>set row. CR \<notin> set f"
  then have "csv_reader self (universal_newlines (write_csv self headers rows)) = Inr (written_records headers rows)"
    unfolding write_csv_records by (rule csv_reader_text_mode [OF assms(1,4)])
  then show "read_csv self (File (write_csv self headers rows)) has_header = Inr (headers, rows)"
    using split_written_records [OF assms(2,3)]
    by (simp add: read_csv_def)
qed

lemma valid_dialect_init: "valid_dialect CSVTool_init"
  by (simp add: valid_dialect_def CSVTool_init_def)

lemma in_field_overflow:
  assumes "state r = IN_FIELD" "\<not> needs_quote self u" "rest \<noteq> []"
      and "int (length (field r)) \<le> field_limit"
      and "field_limit < int (length (field r)) + int (length u)"
  shows "reader_text self r (u @ rest) = Inl CsvError"
  using assms
proof (induction u arbitrary: r)
  case Nil
  then show ?case by simp
next
  case (Cons c u)
  from Cons.prems have c: "c \<noteq> delimiter self" "c \<noteq> quote_char self" "c \<noteq> CR" "c \<noteq> LF"
    and u: "\<not> needs_quote self u"
    by (simp_all add: needs_quote_Cons)
  have proc: "parse_process_char self r (Some c) = parse_add_char r c"
    using Cons.prems(1) c by (simp add: parse_process_char_def is_eol_def)
  have tail: "u @ rest \<noteq> []"
    using Cons.prems(3) by simp
  show ?case
  proof (cases "int (length (field r)) < field_limit")
    case True
    have "reader_text self r ((c # u) @ rest) = reader_text self (with_char r c) (u @ rest)"
      using c(4) tail by (simp add: reader_text_step proc parse_add_char_room [OF True])
    also have "\<dots> = Inl CsvError"
      using Cons.prems(1,3,5) u True by (intro Cons.IH) (simp_all add: with_char_def)
    finally show ?thesis .
  next
    case False
    then have "parse_add_char r c = Inl CsvError"
      by (simp add: parse_add_char_full)
    then show ?thesis
      using c(4) tail by (simp add: reader_text_step proc)
  qed
qed

lemma big_field_rejected:
  assumes "\<not> needs_quote self u" "field_limit < int (length u)"
  shows "csv_reader self (writerow self [u]) = Inl CsvError"
proof -
  from assms(2) obtain c v where u: "u = c # v"
    by (cases u) (simp_all add: field_limit_def)
  with assms(1) have c: "c \<noteq> delimiter self" "c \<noteq> quote_char self" "c \<noteq> CR" "c \<noteq> LF"
    and v: "\<not> needs_quote self v"
    by (simp_all add: needs_quote_Cons)
  have written: "writerow self [u] = c # v @ [CR, LF]"
    using assms(1) by (simp add: writerow_def join_append_def double_quotes_plain u)
  let ?r1 = "(with_char parse_reset c)\<lparr>state := IN_FIELD\<rparr>"
  have step: "parse_process_char self parse_reset (Some c) = Inr ?r1"
    using c
    by (simp add: parse_process_char_def parse_reset_def start_field_def is_eol_def
          add_char_then_def parse_add_char_def with_char_def field_limit_def)
  have "reader_text self parse_reset (c # v @ [CR, LF]) = reader_text self ?r1 (v @ [CR, LF])"
    using c(4) by (simp add: reader_text_step step)
  also have "\<dots> = Inl CsvError"
    using v assms(2) u
    by (intro in_field_overflow) (simp_all add: with_char_def parse_reset_def field_limit_def)
  finally show ?thesis
    by (simp add: csv_reader_def reader_text_def written)
qed

text \<open>
  C1: the round trip. As stated, the claim fails, in three ways. \<^verbatim>\<open>write_csv\<close> tests the
  truth value of the header, so a header with no field (the first line of the input was
  blank) is not written, and parsing the text again takes the first row as the header. A
  carriage return inside a field comes back as a line feed when the text is read from a
  named file, which is opened in text mode. And the reader refuses a field of more than
  131072 characters, which the writer writes without complaint. What holds, for the tool
  as \<^verbatim>\<open>__init__\<close> sets it up: when the header, if there is one, has at least one field
  and no field is longer than 131072 characters, the text that \<^verbatim>\<open>write_csv\<close> produces,
  given to \<^verbatim>\<open>read_csv\<close> as it is or through standard input, with the same header flag,
  is parsed back to the same header and the same rows; and so it is through a named file
  when no field holds a carriage return. The header flag is the same when it is one under
  which the parser can return this record set: set with a header or with nothing at all,
  not set with no header.
\<close>

theorem write_read_roundtrip:
  assumes "headers \<noteq> Some []"
      and "if has_header then headers \<noteq> None \<or> rows = [] else headers = None"
      and "\<forall>row\<in>set (case headers of None \<Rightarrow> rows | Some h \<Rightarrow> h # rows).
             \<forall>f\<in>set row. int (length f) \<le> field_limit"
  shows "read_csv CSVTool_init (TextIO (write_csv CSVTool_init headers rows)) has_header
           = Inr (headers, rows)
       \<and> read_csv CSVTool_init (Stdin (write_csv CSVTool_init headers rows)) has_header
           = Inr (headers, rows)
       \<and> ((\<forall>row\<in>set (case headers of None \<Rightarrow> rows | Some h \<Rightarrow> h # rows). \<forall>f\<in>set row. CR \<notin> set f) \<longrightarrow>
            read_csv CSVTool_init (File (write_csv CSVTool_init headers rows)) has_header
              = Inr (headers, rows))"
proof -
  have sub: "set (written_records headers rows) \<subseteq> set (case headers of None \<Rightarrow> rows | Some h \<Rightarrow> h # rows)"
    by (cases headers) (auto simp: written_records_def)
  with assms(3) have fit: "\<forall>row\<in>set (written_records headers rows). \<forall>f\<in>set row. int (length f) \<le> field_limit"
    by blast
  show ?thesis
    using roundtrip_dialect [OF valid_dialect_init assms(1,2) fit] sub by blast
qed

theorem write_read_roundtrip_counterexample:
  "read_csv CSVTool_init (File (LF # ''a'' @ [LF])) True = Inr (Some [], [[''a'']])
   \<and> write_csv CSVTool_init (Some []) [[''a'']] = ''a'' @ [CR, LF]
   \<and> read_csv CSVTool_init (TextIO (write_csv CSVTool_init (Some []) [[''a'']])) True
       = Inr (Some [''a''], [])
   \<and> read_csv CSVTool_init (TextIO (write_csv CSVTool_init (Some []) [[''a'']])) True
       \<noteq> Inr (Some [], [[''a'']])
   \<and> read_csv CSVTool_init (File (write_csv CSVTool_init None [[''x'' @ [CR] @ ''y'']])) False
       = Inr (None, [[''x'' @ [LF] @ ''y'']])
   \<and> read_csv CSVTool_init (File (write_csv CSVTool_init None [[''x'' @ [CR] @ ''y'']])) False
       \<noteq> Inr (None, [[''x'' @ [CR] @ ''y'']])
   \<and> read_csv CSVTool_init (TextIO (write_csv CSVTool_init None [[replicate 131073 CHR ''a'']])) False
       = Inl CsvError
   \<and> read_csv CSVTool_init (TextIO (write_csv CSVTool_init None [[replicate 131073 CHR ''a'']])) False
       \<noteq> Inr (None, [[replicate 131073 CHR ''a'']])"
proof -
  have header: "read_csv CSVTool_init (File (LF # ''a'' @ [LF])) True = Inr (Some [], [[''a'']])
   \<and> write_csv CSVTool_init (Some []) [[''a'']] = ''a'' @ [CR, LF]
   \<and> read_csv CSVTool_init (TextIO (write_csv CSVTool_init (Some []) [[''a'']])) True
       = Inr (Some [''a''], [])
   \<and> read_csv CSVTool_init (TextIO (write_csv CSVTool_init (Some []) [[''a'']])) True
       \<noteq> Inr (Some [], [[''a'']])"
    by code_simp
  have text_mode: "read_csv CSVTool_init (File (write_csv CSVTool_init None [[''x'' @ [CR] @ ''y'']])) False
       = Inr (None, [[''x'' @ [LF] @ ''y'']])
   \<and> read_csv CSVTool_init (File (write_csv CSVTool_init None [[''x'' @ [CR] @ ''y'']])) False
       \<noteq> Inr (None, [[''x'' @ [CR] @ ''y'']])"
    by code_simp
  let ?u = "replicate 131073 CHR ''a''"
  have plain: "\<not> needs_quote CSVTool_init ?u"
    by (simp add: needs_quote_def list_ex_iff CSVTool_init_def)
  have long: "field_limit < int (length ?u)"
    by (simp add: field_limit_def)
  have written: "write_csv CSVTool_init None [[?u]] = writerow CSVTool_init [?u]"
    by (simp add: write_csv_def)
  have big: "read_csv CSVTool_init (TextIO (write_csv CSVTool_init None [[?u]])) False = Inl CsvError"
    unfolding written
    by (simp add: read_csv_def big_field_rejected [OF plain long])
  then have "read_csv CSVTool_init (TextIO (write_csv CSVTool_init None [[?u]])) False \<noteq> Inr (None, [[?u]])"
    by simp
  with header text_mode big show ?thesis
    by blast
qed

theorem write_read_roundtrip_witness:
  "read_csv CSVTool_init
     (TextIO (write_csv CSVTool_init (Some [''n,1'', ''''])
                [[], [''''], [''x'' @ [CR, LF] @ ''y'', [CHR 0x22]]])) True
     = Inr (Some [''n,1'', ''''], [[], [''''], [''x'' @ [CR, LF] @ ''y'', [CHR 0x22]]])
   \<and> read_csv CSVTool_init
     (Stdin (write_csv CSVTool_init (Some [''n,1'', ''''])
                [[], [''''], [''x'' @ [CR, LF] @ ''y'', [CHR 0x22]]])) True
     = Inr (Some [''n,1'', ''''], [[], [''''], [''x'' @ [CR, LF] @ ''y'', [CHR 0x22]]])
   \<and> read_csv CSVTool_init
     (File (write_csv CSVTool_init (Some [''n,1'', ''''])
                [[], [''''], [''x'' @ [LF] @ ''y'', [CHR 0x22]]])) True
     = Inr (Some [''n,1'', ''''], [[], [''''], [''x'' @ [LF] @ ''y'', [CHR 0x22]]])"
proof -
  let ?h = "Some [''n,1'', '''']"
  let ?rows1 = "[[], [''''], [''x'' @ [CR, LF] @ ''y'', [CHR 0x22]]]"
  let ?rows2 = "[[], [''''], [''x'' @ [LF] @ ''y'', [CHR 0x22]]]"
  have header: "?h \<noteq> Some []"
    by simp
  have flag: "if True then ?h \<noteq> None \<or> rows = [] else ?h = None" for rows :: "string list list"
    by simp
  have fit1: "\<forall>row\<in>set (case ?h of None \<Rightarrow> ?rows1 | Some h \<Rightarrow> h # ?rows1).
                \<forall>f\<in>set row. int (length f) \<le> field_limit"
    by (simp add: field_limit_def)
  have fit2: "\<forall>row\<in>set (case ?h of None \<Rightarrow> ?rows2 | Some h \<Rightarrow> h # ?rows2).
                \<forall>f\<in>set row. int (length f) \<le> field_limit"
    by (simp add: field_limit_def)
  have no_cr: "\<forall>row\<in>set (case ?h of None \<Rightarrow> ?rows2 | Some h \<Rightarrow> h # ?rows2).
                 \<forall>f\<in>set row. CR \<notin> set f"
    by simp
  show ?thesis
    using write_read_roundtrip [OF header flag fit1] write_read_roundtrip [OF header flag fit2] no_cr
    by blast
qed

section \<open>The readable mode\<close>

subsection \<open>The printing loop and the column widths\<close>

lemma print_rows_aux:
  "concat (map (\<lambda>(row_idx, row). f row # (if row_idx = 0 \<and> b then [s] else [])) (enumerate (Suc n) rows))
     = map f rows"
  by (induction rows arbitrary: n) simp_all

lemma print_rows_no_header:
  "print_rows False widths all_rows = map (\<lambda>row. py_join '' | '' (format_row widths row)) all_rows"
proof -
  have "concat (map (\<lambda>(row_idx, row). py_join '' | '' (format_row widths row) # []) (enumerate n all_rows))
          = map (\<lambda>row. py_join '' | '' (format_row widths row)) all_rows" for n
    by (induction all_rows arbitrary: n) simp_all
  then show ?thesis by (simp add: print_rows_def)
qed

lemma print_rows_header:
  "print_rows True widths (h # rows) =
     py_join '' | '' (format_row widths h) # separator widths #
     map (\<lambda>row. py_join '' | '' (format_row widths row)) rows"
  using print_rows_aux [of "\<lambda>row. py_join '' | '' (format_row widths row)" True "separator widths" 0 rows]
  by (simp add: print_rows_def)

lemma format_row_nth:
  "format_row widths row =
     map (\<lambda>j. if j < length widths then ljust (row ! j) (widths ! j) else row ! j) [0..<length row]"
  by (rule nth_equalityI) (simp_all add: format_row_def nth_enumerate_eq)

lemma Max_insert_max:
  "finite S \<Longrightarrow> Max (insert (max a b) S) = Max (insert a (insert b S))" for a b :: nat
  by (cases "S = {}") (simp_all add: max.assoc)

lemma column_width_fold:
  "fold (\<lambda>row max_width. if j < length row then max max_width (length (row ! j)) else max_width) rows a
     = Max (insert a {length (r ! j) | r. r \<in> set rows \<and> j < length r})"
proof (induction rows arbitrary: a)
  case Nil
  then show ?case by simp
next
  case (Cons row rows)
  let ?S = "{length (r ! j) | r. r \<in> set rows \<and> j < length r}"
  have fin: "finite ?S" by simp
  show ?case
  proof (cases "j < length row")
    case True
    then have eq: "{length (r ! j) | r. r \<in> set (row # rows) \<and> j < length r} = insert (length (row ! j)) ?S"
      by auto
    have "Max (insert (max a (length (row ! j))) ?S) = Max (insert a (insert (length (row ! j)) ?S))"
      using fin by (rule Max_insert_max)
    with True show ?thesis by (simp only: fold_simps Cons.IH eq if_True)
  next
    case False
    then have eq: "{length (r ! j) | r. r \<in> set (row # rows) \<and> j < length r} = ?S"
      by auto
    with False show ?thesis by (simp add: Cons.IH)
  qed
qed

lemma column_width_Max:
  assumes "r0 \<in> set all_rows" "j < length r0"
  shows "column_width all_rows j = Max {length (r ! j) | r. r \<in> set all_rows \<and> j < length r}"
proof -
  let ?S = "{length (r ! j) | r. r \<in> set all_rows \<and> j < length r}"
  have "finite ?S" by simp
  moreover have "?S \<noteq> {}" using assms by auto
  ultimately have "Max (insert 0 ?S) = Max ?S"
    by (simp add: max_def)
  then show ?thesis by (simp add: column_width_def column_width_fold)
qed


lemma column_widths_Max:
  assumes "displayed \<noteq> []"
  shows "length (column_widths displayed) = length (hd displayed)"
    and "\<forall>j<length (column_widths displayed).
           column_widths displayed ! j = Max {length (r ! j) | r. r \<in> set displayed \<and> j < length r}"
proof -
  show len: "length (column_widths displayed) = length (hd displayed)"
    by (simp add: column_widths_def)
  have "hd displayed \<in> set displayed" using assms by simp
  then show "\<forall>j<length (column_widths displayed).
           column_widths displayed ! j = Max {length (r ! j) | r. r \<in> set displayed \<and> j < length r}"
    using len by (auto simp: column_widths_def intro: column_width_Max)
qed

lemma readable_lines:
  assumes "read_csv self input_source (\<not> no_header) = Inr (headers, rows)"
  shows "readable self input_source no_header =
           Inr (let displayed = (if truthy headers \<and> \<not> no_header then [the headers] else []) @ rows;
                    line = (\<lambda>row. py_join '' | '' (format_row (column_widths displayed) row))
                in if displayed = [] then []
                   else if truthy headers \<and> \<not> no_header
                     then line (hd displayed) # separator (column_widths displayed) # map line (tl displayed)
                     else map line displayed)"
proof -
  have "readable self input_source no_header =
          (if rows = [] \<and> \<not> truthy headers then Inr []
           else
             let all_rows = (if truthy headers \<and> \<not> no_header then [the headers] else []) @ rows
             in if all_rows = [] then Inr []
                else Inr (print_rows (truthy headers \<and> \<not> no_header) (column_widths all_rows) all_rows))"
    by (simp only: readable_def assms sum.case prod.case)
  then show ?thesis
    by (cases no_header; cases "truthy headers")
       (simp_all add: Let_def print_rows_header print_rows_no_header)
qed

text \<open>
  C7: the readable mode. The rows displayed are the header, when one is shown, followed
  by the rows. There is one width for each column of the first row displayed, the largest
  length among the displayed rows that have this column. Each row is printed as its
  cells joined with \<open>" | "\<close>, a cell of a column that has a width padded with spaces on the
  right up to that width and any further cell as it is. When a header is shown the line
  after it is made of one run of dashes per width, joined with \<open>"-|-"\<close>. When there is
  nothing to display nothing is printed.
\<close>

theorem readable_rendering:
  assumes "read_csv self input_source (\<not> no_header) = Inr (headers, rows)"
  shows "let header_shown = truthy headers \<and> \<not> no_header;
             displayed = (if header_shown then [the headers] else []) @ rows;
             W = column_widths displayed;
             line = (\<lambda>row. py_join '' | ''
                      (map (\<lambda>j. if j < length W
                                 then row ! j @ replicate (W ! j - length (row ! j)) CHR '' ''
                                 else row ! j) [0..<length row]))
         in (displayed \<noteq> [] \<longrightarrow>
               length W = length (hd displayed) \<and>
               (\<forall>j<length W. W ! j = Max {length (r ! j) | r. r \<in> set displayed \<and> j < length r}))
          \<and> readable self input_source no_header =
               Inr (if displayed = [] then []
                    else if header_shown
                      then line (hd displayed) #
                           py_join ''-|-'' (map (\<lambda>w. replicate w CHR ''-'') W) #
                           map line (tl displayed)
                      else map line displayed)"
proof -
  let ?displayed = "(if truthy headers \<and> \<not> no_header then [the headers] else []) @ rows"
  let ?W = "column_widths ?displayed"
  have cell: "py_join '' | '' (format_row ?W row) =
      py_join '' | '' (map (\<lambda>j. if j < length ?W
                                 then row ! j @ replicate (?W ! j - length (row ! j)) CHR '' ''
                                 else row ! j) [0..<length row])" for row
    by (simp only: format_row_nth ljust_def)
  have widths: "?displayed \<noteq> [] \<longrightarrow>
               length ?W = length (hd ?displayed) \<and>
               (\<forall>j<length ?W. ?W ! j = Max {length (r ! j) | r. r \<in> set ?displayed \<and> j < length r})"
    using column_widths_Max [of ?displayed] by blast
  have out: "readable self input_source no_header =
           Inr (if ?displayed = [] then []
                   else if truthy headers \<and> \<not> no_header
                     then py_join '' | '' (format_row ?W (hd ?displayed)) # separator ?W #
                          map (\<lambda>row. py_join '' | '' (format_row ?W row)) (tl ?displayed)
                     else map (\<lambda>row. py_join '' | '' (format_row ?W row)) ?displayed)"
    using readable_lines [OF assms] by (simp only: Let_def)
  show ?thesis
    unfolding Let_def
    by (rule conjI, rule widths, simp only: out cell separator_def)
qed

theorem readable_rendering_witness:
  "read_csv CSVTool_init (File (''h,i'' @ [LF] @ ''xxx,y,zzz'' @ [LF, LF] @ ''q'')) True
     = Inr (Some [''h'', ''i''], [[''xxx'', ''y'', ''zzz''], [], [''q'']])
   \<and> column_widths [[''h'', ''i''], [''xxx'', ''y'', ''zzz''], [], [''q'']] = [3, 1]
   \<and> readable CSVTool_init (File (''h,i'' @ [LF] @ ''xxx,y,zzz'' @ [LF, LF] @ ''q'')) False
     = Inr [''h   | i'', ''----|--'', ''xxx | y | zzz'', [], ''q  '']"
proof -
  let ?src = "File (''h,i'' @ [LF] @ ''xxx,y,zzz'' @ [LF, LF] @ ''q'')"
  have parsed: "read_csv CSVTool_init ?src (\<not> False)
     = Inr (Some [''h'', ''i''], [[''xxx'', ''y'', ''zzz''], [], [''q'']])"
    by code_simp
  have widths: "column_widths [[''h'', ''i''], [''xxx'', ''y'', ''zzz''], [], [''q'']] = [3, 1]"
    by code_simp
  show ?thesis
    using readable_rendering [OF parsed] parsed widths
    by (simp add: Let_def nth_Cons' eval_nat_numeral)
qed

text \<open>
  C6: the no-header flag of the readable mode. As stated, the claim fails: with the flag
  set the input is parsed with no header, so the record that would otherwise be the
  header is printed as the first data row. What holds: every record of the input, the
  first one included, is printed as a data row, in order, and no separator line is
  printed.
\<close>

theorem readable_no_header_keeps_first_record:
  assumes "read_csv self input_source True = Inr (Some h, rows)"
  shows "readable self input_source True =
           Inr (map (\<lambda>row. py_join '' | '' (format_row (column_widths (h # rows)) row)) (h # rows))"
proof -
  from assms obtain records where recs: "csv_reader self (read_content input_source) = Inr records"
    and "records \<noteq> []" "h = hd records" "rows = tl records"
    by (auto simp: read_csv_def split: sum.splits if_splits)
  then have "records = h # rows" by simp
  with recs have "read_csv self input_source (\<not> True) = Inr (None, h # rows)"
    by (simp add: read_csv_def)
  from readable_lines [OF this] show ?thesis
    by (simp add: Let_def)
qed

theorem readable_no_header_counterexample:
  "\<not> (read_csv CSVTool_init (File (''h'' @ [LF] @ ''x'' @ [LF])) True = Inr (Some [''h''], [[''x'']])
        \<longrightarrow> readable CSVTool_init (File (''h'' @ [LF] @ ''x'' @ [LF])) True = Inr [''x''])"
  by code_simp

theorem readable_no_header_keeps_first_record_witness:
  "read_csv CSVTool_init (File (''h'' @ [LF] @ ''x'' @ [LF])) True = Inr (Some [''h''], [[''x'']])
   \<and> readable CSVTool_init (File (''h'' @ [LF] @ ''x'' @ [LF])) True = Inr [''h'', ''x'']"
proof -
  have parsed: "read_csv CSVTool_init (File (''h'' @ [LF] @ ''x'' @ [LF])) True = Inr (Some [''h''], [[''x'']])"
    by code_simp
  have "map (\<lambda>row. py_join '' | '' (format_row (column_widths ([''h''] # [[''x'']])) row)) ([''h''] # [[''x'']])
          = [''h'', ''x'']"
    by code_simp
  with readable_no_header_keeps_first_record [OF parsed] parsed show ?thesis
    by simp
qed

text \<open>
  C8: the readable mode on the header \<open>a, bb\<close> and the row \<open>1, 22\<close>. The widths are 1 and 2
  (the longest cell of the first column has one character), so the lines are
  \<open>"a | bb"\<close>, \<open>"--|---"\<close> and \<open>"1 | 22"\<close>, not the lines of the claim, which are those of
  the widths 2 and 2.
\<close>

theorem readable_example:
  "read_csv CSVTool_init (File (''a,bb'' @ [LF] @ ''1,22'' @ [LF])) True
     = Inr (Some [''a'', ''bb''], [[''1'', ''22'']])
   \<and> column_widths [[''a'', ''bb''], [''1'', ''22'']] = [1, 2]
   \<and> readable CSVTool_init (File (''a,bb'' @ [LF] @ ''1,22'' @ [LF])) False
     = Inr [''a | bb'', ''--|---'', ''1 | 22'']"
  by code_simp

theorem readable_example_counterexample:
  "readable CSVTool_init (File (''a,bb'' @ [LF] @ ''1,22'' @ [LF])) False
     \<noteq> Inr [''a  | bb'', ''---|---'', ''1  | 22'']"
  by code_simp

section \<open>Column references and the three operations that use them\<close>

subsection \<open>Indexing\<close>

lemma py_getitem_nonneg:
  "0 \<le> i \<Longrightarrow> py_getitem xs i = (if i < int (length xs) then Inr (xs ! nat i) else Inl IndexError)"
  by (simp add: py_getitem_def)

lemma py_setitem_nonneg:
  "0 \<le> i \<Longrightarrow> py_setitem xs i v = (if i < int (length xs) then Inr (xs[nat i := v]) else Inl IndexError)"
  by (simp add: py_setitem_def)

lemma py_getitem_minus_one:
  "py_getitem xs (- 1) = (if xs = [] then Inl IndexError else Inr (last xs))"
proof (cases "xs = []")
  case True
  then show ?thesis by (simp add: py_getitem_def)
next
  case False
  then have "nat (int (length xs) - 1) = length xs - 1"
    by (simp add: nat_diff_distrib')
  with False show ?thesis
    by (auto simp: py_getitem_def last_conv_nth Suc_le_eq)
qed

lemma py_setitem_minus_one:
  "py_setitem xs (- 1) v = (if xs = [] then Inl IndexError else Inr (butlast xs @ [v]))"
proof (cases xs rule: rev_cases)
  case Nil
  then show ?thesis by (simp add: py_setitem_def)
next
  case (snoc ys y)
  then have "nat (int (length xs) - 1) = length ys"
    by simp
  with snoc show ?thesis
    by (simp add: py_setitem_def)
qed

subsection \<open>The loops for an index that is not negative\<close>

lemma select_row_nonneg:
  "\<forall>i\<in>set col_indices. 0 \<le> i \<Longrightarrow>
   select_row row col_indices =
     Inr (map (\<lambda>i. if i < int (length row) then row ! nat i else []) col_indices)"
  by (induction col_indices) (simp_all add: py_getitem_nonneg)

lemma select_rows_nonneg:
  "\<forall>i\<in>set col_indices. 0 \<le> i \<Longrightarrow>
   select_rows rows col_indices =
     Inr (map (\<lambda>row. map (\<lambda>i. if i < int (length row) then row ! nat i else []) col_indices) rows)"
  by (induction rows) (simp_all add: select_row_nonneg)

lemma select_header_nonneg:
  "\<forall>i\<in>set col_indices. 0 \<le> i \<Longrightarrow>
   select_header headers col_indices =
     Inr (map (\<lambda>i. headers ! nat i) (filter (\<lambda>i. i < int (length headers)) col_indices))"
  by (induction col_indices) (simp_all add: py_getitem_nonneg)

lemma search_rows_nonneg:
  "0 \<le> col_index \<Longrightarrow>
   search_rows found col_index rows =
     Inr (filter (\<lambda>row. col_index < int (length row) \<and> found (row ! nat col_index)) rows)"
  by (induction rows) (simp_all add: py_getitem_nonneg)

lemma replace_rows_nonneg:
  "0 \<le> col_index \<Longrightarrow>
   replace_rows col_index old_value new_value rows =
     Inr (map (\<lambda>row. if col_index < int (length row) \<and> row ! nat col_index = old_value
                      then row[nat col_index := new_value] else row) rows)"
  by (induction rows) (simp_all add: py_getitem_nonneg py_setitem_nonneg)

text \<open>
  The three operations for column references that resolve to indices that are not
  negative: Select pads each row to one field per index and skips the indices the header
  does not have, Search keeps the rows that have the field and match, Replace rewrites the
  field where it exists and equals the old value.
\<close>

lemma select_row_length:
  "select_row row col_indices = Inr new_row \<Longrightarrow> length new_row = length col_indices"
  by (induction col_indices arbitrary: new_row) (auto split: sum.splits if_splits)

lemma select_columns_nonneg:
  assumes "read_csv self input_source (\<not> no_header) = Inr (headers, rows)"
      and "select_indices headers (py_split CHR '','' columns) = Inr col_indices"
      and "\<forall>i\<in>set col_indices. 0 \<le> i"
  shows "select_columns self input_source columns no_header =
           Inr (write_csv self
                  (if truthy headers \<and> \<not> no_header
                   then Some (map (\<lambda>i. the headers ! nat i)
                                (filter (\<lambda>i. i < int (length (the headers))) col_indices))
                   else None)
                  (map (\<lambda>row. map (\<lambda>i. if i < int (length row) then row ! nat i else []) col_indices)
                       rows))"
  by (simp add: select_columns_def assms(1,2) select_header_nonneg [OF assms(3)]
        select_rows_nonneg [OF assms(3)])

lemma search_nonneg:
  assumes "read_csv self input_source (\<not> no_header) = Inr (headers, rows)"
      and "resolve_column headers column = Inr col_index"
      and "0 \<le> col_index"
  shows "search self re_search input_source column pattern no_header =
           Inr (write_csv self (if \<not> no_header then headers else None)
                  (filter (\<lambda>row. col_index < int (length row) \<and> re_search pattern (row ! nat col_index))
                          rows))"
  by (simp add: search_def assms(1,2) search_rows_nonneg [OF assms(3)])

lemma replace_nonneg:
  assumes "read_csv self input_source (\<not> no_header) = Inr (headers, rows)"
      and "resolve_column headers column = Inr col_index"
      and "0 \<le> col_index"
  shows "replace self input_source column old_value new_value no_header =
           Inr (write_csv self (if \<not> no_header then headers else None)
                  (map (\<lambda>row. if col_index < int (length row) \<and> row ! nat col_index = old_value
                               then row[nat col_index := new_value] else row)
                       rows))"
  by (simp add: replace_def assms(1,2) replace_rows_nonneg [OF assms(3)])

text \<open>
  The examples of the specification: the search for \<open>^a\<close> in the first column, the
  replacement of \<open>Bob\<close> in the column \<open>name\<close>, and the selection of the columns 1 and 5
  of a table of two columns.
\<close>

lemma search_example:
  "search CSVTool_init literal_search
     (File (''fruit,id'' @ [LF] @ ''apple,1'' @ [LF] @ ''banana,2'' @ [LF] @ ''avocado,3'' @ [LF]))
     ''1'' ''^a'' False
   = Inr (''fruit,id'' @ [CR, LF] @ ''apple,1'' @ [CR, LF] @ ''avocado,3'' @ [CR, LF])"
  by code_simp

lemma replace_example:
  "replace CSVTool_init
     (File (''id,name'' @ [LF] @ ''1,Bob'' @ [LF] @ ''2,Bobby'' @ [LF] @ ''3,Bob'' @ [LF]))
     ''name'' ''Bob'' ''Robert'' False
   = Inr (''id,name'' @ [CR, LF] @ ''1,Robert'' @ [CR, LF] @ ''2,Bobby'' @ [CR, LF] @ ''3,Robert'' @ [CR, LF])"
  by code_simp

lemma select_example:
  "select_columns CSVTool_init (File (''a,b'' @ [LF] @ ''1,2'' @ [LF])) ''1,5'' False
   = Inr (''a'' @ [CR, LF] @ ''1,'' @ [CR, LF])"
  by code_simp

subsection \<open>The loops for the index \<open>-1\<close>\<close>

lemma select_rows_minus_one:
  "select_rows rows [- 1] =
     (if [] \<in> set rows then Inl IndexError else Inr (map (\<lambda>row. [last row]) rows))"
  by (induction rows) (auto simp: py_getitem_minus_one)

lemma search_rows_minus_one:
  "search_rows found (- 1) rows =
     (if [] \<in> set rows then Inl IndexError else Inr (filter (\<lambda>row. found (last row)) rows))"
  by (induction rows) (auto simp: py_getitem_minus_one)

lemma replace_rows_minus_one:
  "replace_rows (- 1) old_value new_value rows =
     (if [] \<in> set rows then Inl IndexError
      else Inr (map (\<lambda>row. if last row = old_value then butlast row @ [new_value] else row) rows))"
  by (induction rows) (auto simp: py_getitem_minus_one py_setitem_minus_one)

lemma isdigit_zero: "isdigit ''0''"
  by code_simp

lemma py_int_zero: "py_int ''0'' = Inr 0"
  by code_simp

lemma resolve_column_zero: "resolve_column headers ''0'' = Inr (- 1)"
  by (simp add: resolve_column_def isdigit_zero py_int_zero)

lemma strip_zero: "strip ''0'' = ''0''"
  by code_simp

lemma select_indices_zero: "select_indices headers [''0''] = Inr [- 1]"
  by (simp add: isdigit_zero py_int_zero strip_zero)

lemma py_split_zero: "py_split CHR '','' ''0'' = [''0'']"
  by simp

lemma select_header_minus_one:
  "headers \<noteq> [] \<Longrightarrow> select_header headers [- 1] = Inr [last headers]"
  by (simp add: py_getitem_minus_one)

text \<open>
  C9: the reference \<open>0\<close>. It is a digit string, so it resolves to the index \<open>-1\<close>; the
  only guard is \<open>col_index < len(row)\<close>, which \<open>-1\<close> passes for every row, and Python's
  indexing then reads the last field. So Search filters on the last field of each row,
  Replace rewrites the last field of each row that equals the old value, Select projects
  each row (and the header shown) to its last field; and as soon as one row has no field
  at all the operation stops with an \<open>IndexError\<close>.
\<close>

theorem zero_reference_last_field:
  assumes "read_csv self input_source (\<not> no_header) = Inr (headers, rows)"
  shows "resolve_column headers ''0'' = Inr (- 1)
       \<and> select_indices headers (py_split CHR '','' ''0'') = Inr [- 1]
       \<and> search self re_search input_source ''0'' pattern no_header =
           (if [] \<in> set rows then Inl IndexError
            else Inr (write_csv self (if \<not> no_header then headers else None)
                        (filter (\<lambda>row. re_search pattern (last row)) rows)))
       \<and> replace self input_source ''0'' old_value new_value no_header =
           (if [] \<in> set rows then Inl IndexError
            else Inr (write_csv self (if \<not> no_header then headers else None)
                        (map (\<lambda>row. if last row = old_value then butlast row @ [new_value] else row) rows)))
       \<and> select_columns self input_source ''0'' no_header =
           (if [] \<in> set rows then Inl IndexError
            else Inr (write_csv self
                        (if truthy headers \<and> \<not> no_header then Some [last (the headers)] else None)
                        (map (\<lambda>row. [last row]) rows)))"
proof (intro conjI)
  show "resolve_column headers ''0'' = Inr (- 1)"
    by (rule resolve_column_zero)
  show "select_indices headers (py_split CHR '','' ''0'') = Inr [- 1]"
    by (simp only: py_split_zero select_indices_zero)
  show "search self re_search input_source ''0'' pattern no_header =
           (if [] \<in> set rows then Inl IndexError
            else Inr (write_csv self (if \<not> no_header then headers else None)
                        (filter (\<lambda>row. re_search pattern (last row)) rows)))"
    by (simp add: search_def assms resolve_column_zero search_rows_minus_one)
  show "replace self input_source ''0'' old_value new_value no_header =
           (if [] \<in> set rows then Inl IndexError
            else Inr (write_csv self (if \<not> no_header then headers else None)
                        (map (\<lambda>row. if last row = old_value then butlast row @ [new_value] else row) rows)))"
    by (simp add: replace_def assms resolve_column_zero replace_rows_minus_one)
  have hdr: "truthy headers \<Longrightarrow> select_header (the headers) [- 1] = Inr [last (the headers)]"
    by (cases headers) (simp_all add: select_header_minus_one del: select_header.simps)
  show "select_columns self input_source ''0'' no_header =
           (if [] \<in> set rows then Inl IndexError
            else Inr (write_csv self
                        (if truthy headers \<and> \<not> no_header then Some [last (the headers)] else None)
                        (map (\<lambda>row. [last row]) rows)))"
    using hdr
    by (simp add: select_columns_def assms select_indices_zero select_rows_minus_one
             del: select_header.simps select_indices.simps select_rows.simps)
qed

theorem zero_reference_last_field_witness:
  "read_csv CSVTool_init (File (''a,b'' @ [LF] @ ''1,2'' @ [LF] @ ''3,4,5'' @ [LF])) True
     = Inr (Some [''a'', ''b''], [[''1'', ''2''], [''3'', ''4'', ''5'']])
   \<and> search CSVTool_init literal_search (File (''a,b'' @ [LF] @ ''1,2'' @ [LF] @ ''3,4,5'' @ [LF])) ''0'' ''5'' False
     = Inr (''a,b'' @ [CR, LF] @ ''3,4,5'' @ [CR, LF])
   \<and> replace CSVTool_init (File (''a,b'' @ [LF] @ ''1,2'' @ [LF] @ ''3,4,5'' @ [LF])) ''0'' ''5'' ''x'' False
     = Inr (''a,b'' @ [CR, LF] @ ''1,2'' @ [CR, LF] @ ''3,4,x'' @ [CR, LF])
   \<and> select_columns CSVTool_init (File (''a,b'' @ [LF] @ ''1,2'' @ [LF] @ ''3,4,5'' @ [LF])) ''0'' False
     = Inr (''b'' @ [CR, LF] @ ''2'' @ [CR, LF] @ ''5'' @ [CR, LF])
   \<and> read_csv CSVTool_init (File (''a,b'' @ [LF, LF] @ ''1,2'' @ [LF])) True
     = Inr (Some [''a'', ''b''], [[], [''1'', ''2'']])
   \<and> search CSVTool_init literal_search (File (''a,b'' @ [LF, LF] @ ''1,2'' @ [LF])) ''0'' ''5'' False
     = Inl IndexError
   \<and> replace CSVTool_init (File (''a,b'' @ [LF, LF] @ ''1,2'' @ [LF])) ''0'' ''5'' ''x'' False
     = Inl IndexError
   \<and> select_columns CSVTool_init (File (''a,b'' @ [LF, LF] @ ''1,2'' @ [LF])) ''0'' False
     = Inl IndexError"
proof -
  let ?f = "File (''a,b'' @ [LF] @ ''1,2'' @ [LF] @ ''3,4,5'' @ [LF])"
  let ?g = "File (''a,b'' @ [LF, LF] @ ''1,2'' @ [LF])"
  have f: "read_csv CSVTool_init ?f (\<not> False) = Inr (Some [''a'', ''b''], [[''1'', ''2''], [''3'', ''4'', ''5'']])"
    by code_simp
  have g: "read_csv CSVTool_init ?g (\<not> False) = Inr (Some [''a'', ''b''], [[], [''1'', ''2'']])"
    by code_simp
  have w1: "write_csv CSVTool_init (Some [''a'', ''b''])
              (filter (\<lambda>row. literal_search ''5'' (last row)) [[''1'', ''2''], [''3'', ''4'', ''5'']])
            = ''a,b'' @ [CR, LF] @ ''3,4,5'' @ [CR, LF]"
    by code_simp
  have w2: "write_csv CSVTool_init (Some [''a'', ''b''])
              (map (\<lambda>row. if last row = ''5'' then butlast row @ [''x''] else row) [[''1'', ''2''], [''3'', ''4'', ''5'']])
            = ''a,b'' @ [CR, LF] @ ''1,2'' @ [CR, LF] @ ''3,4,x'' @ [CR, LF]"
    by code_simp
  have w3: "write_csv CSVTool_init (Some [last [''a'', ''b'']])
              (map (\<lambda>row. [last row]) [[''1'', ''2''], [''3'', ''4'', ''5'']])
            = ''b'' @ [CR, LF] @ ''2'' @ [CR, LF] @ ''5'' @ [CR, LF]"
    by code_simp
  show ?thesis
    using zero_reference_last_field [OF f, of literal_search "''5''" "''5''" "''x''"]
          zero_reference_last_field [OF g, of literal_search "''5''" "''5''" "''x''"]
          f g w1 w2 w3
    by simp
qed

subsection \<open>Whitespace around a column reference\<close>

lemma py_index_None: "py_index xs v = None \<longleftrightarrow> v \<notin> set xs"
  by (induction xs) auto

lemma select_indices_strip_cong:
  "map strip cols = map strip cols' \<Longrightarrow> select_indices headers cols = select_indices headers cols'"
proof (induction cols arbitrary: cols')
  case Nil
  then show ?case by simp
next
  case (Cons c cols)
  then obtain d ds where cols': "cols' = d # ds" and "strip c = strip d" "map strip cols = map strip ds"
    by (cases cols') auto
  with Cons.IH [of ds] show ?case by (simp add: Let_def split: sum.splits option.splits)
qed

lemma isspace_not_digit: "py_isspace c \<Longrightarrow> \<not> is_digit_char c"
  by (auto simp: py_isspace_def is_digit_char_def is_decimal_char_def Let_def)

lemma strip_changes_space: 
  assumes "strip s \<noteq> s"
  shows "\<exists>c\<in>set s. py_isspace c"
proof (rule ccontr)
  assume "\<not> (\<exists>c\<in>set s. py_isspace c)"
  then have no: "\<forall>c\<in>set s. \<not> py_isspace c" by simp
  have "dropWhile py_isspace xs = xs" if "\<forall>c\<in>set xs. \<not> py_isspace c" for xs
    using that by (cases xs) simp_all
  from this [of s] this [of "rev s"] no have "strip s = s"
    by (simp add: strip_def lstrip_def rstrip_def)
  with assms show False by simp
qed

lemma strip_changes_not_digit: "strip s \<noteq> s \<Longrightarrow> \<not> isdigit s"
  using strip_changes_space [of s] isspace_not_digit
  by (auto simp: isdigit_def list_all_iff)

lemma resolve_column_name:
  "\<not> isdigit column \<Longrightarrow>
   resolve_column headers column =
     (if truthy headers then
        (case py_index (the headers) column of
           None \<Rightarrow> Inl (ColumnNotFound column)
         | Some i \<Rightarrow> Inr (int i))
      else Inl NameWithoutHeaders)"
  by (simp add: resolve_column_def)

lemma strip_space_one_space: "strip '' 1 '' = ''1''" "strip ''1'' = ''1''" "strip '' 1'' \<noteq> '' 1''"
  by code_simp+

lemma select_indices_one: "select_indices headers [''1''] = Inr [0]"
proof -
  have "isdigit ''1''" "py_int ''1'' = Inr 1" "strip ''1'' = ''1''" by code_simp+
  then show ?thesis by simp
qed

text \<open>
  C10: Select strips each part of its column list before it looks at it, so the parts
  count only up to the whitespace around them and \<open>" 1 "\<close> is the first column. Search and
  Replace take their reference as it is: one that \<open>strip\<close> would change is no digit
  string, so it is looked up as a name (\<open>" 1"\<close> fails when there is no header, or when no
  header field is \<open>" 1"\<close>).
\<close>

theorem column_reference_whitespace:
  assumes "read_csv self input_source (\<not> no_header) = Inr (headers, rows)"
  shows "select_columns self input_source '' 1 '' no_header = select_columns self input_source ''1'' no_header
       \<and> select_indices headers (py_split CHR '','' '' 1 '') = Inr [0]
       \<and> (\<forall>columns columns'.
            map strip (py_split CHR '','' columns) = map strip (py_split CHR '','' columns') \<longrightarrow>
            select_columns self input_source columns no_header = select_columns self input_source columns' no_header)
       \<and> (\<forall>column. strip column \<noteq> column \<longrightarrow>
            resolve_column headers column =
              (if truthy headers then
                 (case py_index (the headers) column of
                    None \<Rightarrow> Inl (ColumnNotFound column)
                  | Some i \<Rightarrow> Inr (int i))
               else Inl NameWithoutHeaders))
       \<and> (\<not> truthy headers \<longrightarrow>
            search self re_search input_source '' 1'' pattern no_header = Inl NameWithoutHeaders \<and>
            replace self input_source '' 1'' old_value new_value no_header = Inl NameWithoutHeaders)
       \<and> (truthy headers \<and> '' 1'' \<notin> set (the headers) \<longrightarrow>
            search self re_search input_source '' 1'' pattern no_header = Inl (ColumnNotFound '' 1'') \<and>
            replace self input_source '' 1'' old_value new_value no_header = Inl (ColumnNotFound '' 1''))"
proof -
  have cong: "select_columns self input_source columns no_header = select_columns self input_source columns' no_header"
    if "map strip (py_split CHR '','' columns) = map strip (py_split CHR '','' columns')" for columns columns'
    using select_indices_strip_cong [OF that, of headers] by (simp add: select_columns_def assms)
  have split1: "py_split CHR '','' '' 1 '' = ['' 1 '']" "py_split CHR '','' ''1'' = [''1'']"
    by simp_all
  have a: "select_columns self input_source '' 1 '' no_header = select_columns self input_source ''1'' no_header"
    by (rule cong) (simp only: split1 strip_space_one_space list.map)
  have "select_indices headers ['' 1 ''] = select_indices headers [''1'']"
    by (rule select_indices_strip_cong) (simp only: strip_space_one_space list.map)
  then have b: "select_indices headers (py_split CHR '','' '' 1 '') = Inr [0]"
    by (simp only: split1 select_indices_one)
  have name: "resolve_column headers column =
              (if truthy headers then
                 (case py_index (the headers) column of
                    None \<Rightarrow> Inl (ColumnNotFound column)
                  | Some i \<Rightarrow> Inr (int i))
               else Inl NameWithoutHeaders)" if "strip column \<noteq> column" for column
    using that by (intro resolve_column_name strip_changes_not_digit)
  have e: "search self re_search input_source '' 1'' pattern no_header = Inl NameWithoutHeaders \<and>
            replace self input_source '' 1'' old_value new_value no_header = Inl NameWithoutHeaders"
    if "\<not> truthy headers"
    using that name [OF strip_space_one_space(3)] by (simp add: search_def replace_def assms)
  have "py_index (the headers) '' 1'' = None" if "'' 1'' \<notin> set (the headers)"
    using that by (simp add: py_index_None)
  then have f: "search self re_search input_source '' 1'' pattern no_header = Inl (ColumnNotFound '' 1'') \<and>
            replace self input_source '' 1'' old_value new_value no_header = Inl (ColumnNotFound '' 1'')"
    if "truthy headers \<and> '' 1'' \<notin> set (the headers)"
    using that name [OF strip_space_one_space(3)] by (simp add: search_def replace_def assms)
  show ?thesis
    using a b cong name e f by blast
qed

theorem column_reference_whitespace_witness:
  "read_csv CSVTool_init (File (''a,b'' @ [LF] @ ''1,2'' @ [LF])) False = Inr (None, [[''a'', ''b''], [''1'', ''2'']])
   \<and> select_columns CSVTool_init (File (''a,b'' @ [LF] @ ''1,2'' @ [LF])) '' 1 '' True
       = Inr (''a'' @ [CR, LF] @ ''1'' @ [CR, LF])
   \<and> search CSVTool_init literal_search (File (''a,b'' @ [LF] @ ''1,2'' @ [LF])) '' 1'' ''1'' True
       = Inl NameWithoutHeaders
   \<and> replace CSVTool_init (File (''a,b'' @ [LF] @ ''1,2'' @ [LF])) '' 1'' ''1'' ''x'' True
       = Inl NameWithoutHeaders"
proof -
  let ?f = "File (''a,b'' @ [LF] @ ''1,2'' @ [LF])"
  have f: "read_csv CSVTool_init ?f (\<not> True) = Inr (None, [[''a'', ''b''], [''1'', ''2'']])"
    by code_simp
  have s: "select_columns CSVTool_init ?f ''1'' True = Inr (''a'' @ [CR, LF] @ ''1'' @ [CR, LF])"
    by code_simp
  show ?thesis
    using column_reference_whitespace [OF f, of literal_search "''1''" "''1''" "''x''"] f s
    by simp
qed

subsection \<open>Names as column references\<close>

text \<open>
  Search and Replace stop when a name meets no header, or a header that does not hold
  it. Select stops in the second case and passes over the name in the first.
\<close>

lemma name_without_header:
  assumes "read_csv self input_source (\<not> no_header) = Inr (headers, rows)"
      and "\<not> isdigit column" "\<not> truthy headers"
  shows "search self re_search input_source column pattern no_header = Inl NameWithoutHeaders"
    and "replace self input_source column old_value new_value no_header = Inl NameWithoutHeaders"
  using assms by (simp_all add: search_def replace_def resolve_column_def)

lemma name_not_found:
  assumes "read_csv self input_source (\<not> no_header) = Inr (headers, rows)"
      and "\<not> isdigit column" "truthy headers" "column \<notin> set (the headers)"
  shows "search self re_search input_source column pattern no_header = Inl (ColumnNotFound column)"
    and "replace self input_source column old_value new_value no_header = Inl (ColumnNotFound column)"
proof -
  have "py_index (the headers) column = None"
    using assms(4) by (simp add: py_index_None)
  then show "search self re_search input_source column pattern no_header = Inl (ColumnNotFound column)"
    and "replace self input_source column old_value new_value no_header = Inl (ColumnNotFound column)"
    using assms(1-3) by (simp_all add: search_def replace_def resolve_column_def)
qed

lemma select_indices_skips_name:
  assumes "\<not> isdigit (strip c)" "\<not> truthy headers"
  shows "select_indices headers (c # cols) = select_indices headers cols"
  using assms by (simp add: Let_def split: sum.splits)

lemma select_indices_name_not_found:
  assumes "\<not> isdigit (strip c)" "truthy headers" "strip c \<notin> set (the headers)"
  shows "select_indices headers (c # cols) = Inl (ColumnNotFound (strip c))"
proof -
  have "py_index (the headers) (strip c) = None"
    using assms(3) by (simp add: py_index_None)
  with assms(1,2) show ?thesis by (simp add: Let_def)
qed

text \<open>
  C2: a name as column reference when there is no header. Search and Replace stop with
  the message that a name needs headers. Select has no such branch: it passes over the
  name, and here it prints one empty record for each row.
\<close>

theorem select_name_without_header:
  "read_csv CSVTool_init (File (''a,b'' @ [LF] @ ''1,2'' @ [LF])) False
     = Inr (None, [[''a'', ''b''], [''1'', ''2'']])
   \<and> select_columns CSVTool_init (File (''a,b'' @ [LF] @ ''1,2'' @ [LF])) ''name'' True
     = Inr [CR, LF, CR, LF]
   \<and> search CSVTool_init literal_search (File (''a,b'' @ [LF] @ ''1,2'' @ [LF])) ''name'' ''1'' True
     = Inl NameWithoutHeaders
   \<and> replace CSVTool_init (File (''a,b'' @ [LF] @ ''1,2'' @ [LF])) ''name'' ''1'' ''x'' True
     = Inl NameWithoutHeaders"
  by code_simp

text \<open>
  A reference made of a superscript digit passes \<^verbatim>\<open>isdigit\<close> and then stops
  \<^verbatim>\<open>int()\<close>: an uncaught \<open>ValueError\<close>, whether or not there is a header.
\<close>

lemma resolve_column_superscript: "resolve_column headers [CHR 0xB2] = Inl ValueError"
proof -
  have "isdigit [CHR 0xB2]" "py_int [CHR 0xB2] = Inl ValueError"
    by code_simp+
  then show ?thesis by (simp add: resolve_column_def)
qed

text \<open>
  C3: Select on a file whose last line is blank, with the reference \<open>0\<close>. The claim asks
  for one field per requested column in every output row, an empty one where the row is
  too short; the empty row passes the guard \<open>-1 < 0\<close> and the operation stops with an
  \<open>IndexError\<close>. With the reference \<open>3\<close> the same file gives the padded rows.
\<close>

theorem select_zero_on_empty_row:
  "read_csv CSVTool_init (File (''a,b'' @ [LF] @ ''1,2'' @ [LF, LF])) True
     = Inr (Some [''a'', ''b''], [[''1'', ''2''], []])
   \<and> select_columns CSVTool_init (File (''a,b'' @ [LF] @ ''1,2'' @ [LF, LF])) ''0'' False
     = Inl IndexError
   \<and> select_columns CSVTool_init (File (''a,b'' @ [LF] @ ''1,2'' @ [LF, LF])) ''1,3'' False
     = Inr (''a'' @ [CR, LF] @ ''1,'' @ [CR, LF] @ '','' @ [CR, LF])"
  by code_simp

text \<open>
  C4: Search on the same file with the reference \<open>0\<close>. The claim asks for the rows too
  short to have the field to be dropped; the empty row stops the operation with an
  \<open>IndexError\<close>. With the reference \<open>2\<close> the empty row is dropped.
\<close>

theorem search_zero_on_empty_row:
  "read_csv CSVTool_init (File (''a,b'' @ [LF] @ ''1,2'' @ [LF, LF])) True
     = Inr (Some [''a'', ''b''], [[''1'', ''2''], []])
   \<and> search CSVTool_init literal_search (File (''a,b'' @ [LF] @ ''1,2'' @ [LF, LF])) ''0'' ''2'' False
     = Inl IndexError
   \<and> search CSVTool_init literal_search (File (''a,b'' @ [LF] @ ''1,2'' @ [LF, LF])) ''2'' ''2'' False
     = Inr (''a,b'' @ [CR, LF] @ ''1,2'' @ [CR, LF])"
  by code_simp

text \<open>
  C5: Replace on the same file with the reference \<open>0\<close>. The claim asks for the rows that
  lack the field to be left as they are and for all rows to be written; the empty row
  stops the operation with an \<open>IndexError\<close>. With the reference \<open>2\<close> the empty row is
  written unchanged.
\<close>

theorem replace_zero_on_empty_row:
  "read_csv CSVTool_init (File (''a,b'' @ [LF] @ ''1,2'' @ [LF, LF])) True
     = Inr (Some [''a'', ''b''], [[''1'', ''2''], []])
   \<and> replace CSVTool_init (File (''a,b'' @ [LF] @ ''1,2'' @ [LF, LF])) ''0'' ''2'' ''x'' False
     = Inl IndexError
   \<and> replace CSVTool_init (File (''a,b'' @ [LF] @ ''1,2'' @ [LF, LF])) ''2'' ''2'' ''x'' False
     = Inr (''a,b'' @ [CR, LF] @ ''1,x'' @ [CR, LF] @ [CR, LF])"
  by code_simp

end
